theory Spec2Isabelle
  imports Main
begin

section \<open>Strings and integers of the Go runtime and of math/big\<close>

text \<open>
  A Go string and a byte slice are both sequences of bytes: \<open>string\<close> (a list of 8-bit
  characters). A \<open>*big.Int\<close> is an unbounded integer: \<open>int\<close>.
\<close>

definition TrimPrefix :: "string \<Rightarrow> string \<Rightarrow> string" where
  \<comment> \<open>strings.TrimPrefix: drop the prefix when the string starts with it.\<close>
  "TrimPrefix s prefix =
     (if take (length prefix) s = prefix then drop (length prefix) s else s)"

definition digitVal :: "char \<Rightarrow> nat" where
  \<comment> \<open>The digit value the scanner of math/big gives a byte, for a base of at most 36;
      63 (MaxBase + 1) says that the byte is no digit.\<close>
  "digitVal ch =
     (let c = (of_char ch :: nat) in
      if 48 \<le> c \<and> c \<le> 57 then c - 48
      else if 97 \<le> c \<and> c \<le> 122 then c - 97 + 10
      else if 65 \<le> c \<and> c \<le> 90 then c - 65 + 10
      else 63)"

fun scanDigits :: "nat \<Rightarrow> int \<Rightarrow> nat \<Rightarrow> string \<Rightarrow> int \<times> nat \<times> string" where
  \<comment> \<open>The scanner's loop: read digits of the base into the accumulator, count them, and
      stop at the first byte that is no digit of the base (it is left unread).\<close>
  "scanDigits b acc n [] = (acc, n, [])"
| "scanDigits b acc n (ch # cs) =
     (if b \<le> digitVal ch then (acc, n, ch # cs)
      else scanDigits b (acc * int b + int (digitVal ch)) (Suc n) cs)"

definition SetString :: "int \<Rightarrow> string \<Rightarrow> nat \<Rightarrow> int \<times> bool" where
  \<comment> \<open>(*big.Int).SetString with an explicit base from 2 to 36: the receiver's value before
      the call, the text and the base give the receiver's value after the call and the
      success flag. An optional sign, then at least one digit, and the whole text must be
      consumed. The library leaves the receiver unspecified when the call fails; its scanner
      leaves there what this model returns: the old value when the text is empty, 0 when no
      digit was read, and the value of the digits read when other bytes follow them.\<close>
  "SetString z s base =
     (case s of
        [] \<Rightarrow> (z, False)
      | ch # cs \<Rightarrow>
          (let body = (if ch = CHR ''-'' \<or> ch = CHR ''+'' then cs else s) in
           case scanDigits base 0 0 body of
             (a, count, rest) \<Rightarrow>
               if count = 0 then (0, False)
               else ((if ch = CHR ''-'' then - a else a), rest = [])))"

definition hexToBig :: "string \<Rightarrow> int" where
  \<comment> \<open>z := new(big.Int); z.SetString(strings.TrimPrefix(s, "0x"), 16); return z.
      The success flag of SetString is dropped.\<close>
  "hexToBig s = fst (SetString 0 (TrimPrefix s ''0x'') 16)"

definition lowerDigit :: "nat \<Rightarrow> char" where
  "lowerDigit d = ''0123456789abcdef'' ! d"

function natText :: "nat \<Rightarrow> int \<Rightarrow> string" where
  \<comment> \<open>The digits of a non-negative integer in a base from 2 to 16, without leading zeros.\<close>
  "natText b n =
     (if b < 2 \<or> n < int b then [lowerDigit (nat n)]
      else natText b (n div int b) @ [lowerDigit (nat (n mod int b))])"
  by pat_completeness auto
termination
proof (relation "measure (\<lambda>(b, n). nat n)")
  show "wf (measure (\<lambda>(b, n). nat n))" by simp
next
  fix b :: nat and n :: int
  assume a: "\<not> (b < 2 \<or> n < int b)"
  then have b2: "2 \<le> int b" and nb: "int b \<le> n" by auto
  from b2 nb have p: "0 < n" by linarith
  have "n div int b < n" using p b2 by (intro int_div_less_self) auto
  moreover have "0 \<le> n div int b" using p b2 by (simp add: pos_imp_zdiv_nonneg_iff)
  ultimately show "((b, n div int b), (b, n)) \<in> measure (\<lambda>(b, n). nat n)"
    using p by simp
qed

declare natText.simps [simp del]

definition intText :: "nat \<Rightarrow> int \<Rightarrow> string" where
  \<comment> \<open>(*big.Int).Text(base), which is also String() for base 10 and the verb %x for
      base 16: a minus sign for a negative value, then the digits of the magnitude.\<close>
  "intText b z = (if z < 0 then ''-'' else []) @ natText b \<bar>z\<bar>"

definition Sprintf_0x :: "int \<Rightarrow> string" where
  \<comment> \<open>fmt.Sprintf("0x%x", z) for a *big.Int.\<close>
  "Sprintf_0x z = ''0x'' @ intText 16 z"


section \<open>big.Float: division and fixed-point text\<close>

text \<open>
  A finite \<open>big.Float\<close> is a sign, a mantissa and a binary exponent, with a precision
  in bits: its value is \<open>\<plusminus> mant * 2 ^ exp2\<close>. Operations round to the precision of
  the receiver, to nearest with ties to even (the rounding mode of a new Float).
\<close>

record Float =
  prec :: nat
  neg :: bool
  mant :: int
  exp2 :: int

function BitLen :: "int \<Rightarrow> nat" where
  \<comment> \<open>The length of a magnitude in bits; 0 for 0.\<close>
  "BitLen n = (if n \<le> 0 then 0 else Suc (BitLen (n div 2)))"
  by pat_completeness auto
termination
  by (relation "measure nat") auto

declare BitLen.simps [simp del]

definition roundHalfEven :: "int \<Rightarrow> int \<Rightarrow> int" where
  \<comment> \<open>The quotient a / b of a non-negative a and a positive b, rounded to the nearest
      integer, a tie to the even one.\<close>
  "roundHalfEven a b =
     (let q = a div b; r = a mod b in
      if 2 * r < b then q
      else if b < 2 * r then q + 1
      else if even q then q else q + 1)"

definition SetInt :: "int \<Rightarrow> Float" where
  \<comment> \<open>new(big.Float).SetInt(x): the receiver has precision 0, which becomes the larger of
      x.BitLen() and 64, so that x is held exactly.\<close>
  "SetInt x = \<lparr>prec = max (BitLen \<bar>x\<bar>) 64, neg = (x < 0), mant = \<bar>x\<bar>, exp2 = 0\<rparr>"

definition NewFloat :: "int \<Rightarrow> Float" where
  \<comment> \<open>big.NewFloat of a float64 whose value is the integer v (1e18 is such a float64:
      10^18 = 2^18 * 5^18 and 5^18 < 2^53): precision 53, the value exact.\<close>
  "NewFloat v = \<lparr>prec = 53, neg = (v < 0), mant = \<bar>v\<bar>, exp2 = 0\<rparr>"

definition Quo :: "Float \<Rightarrow> Float \<Rightarrow> Float \<Rightarrow> Float" where
  \<comment> \<open>z.Quo(x, y) for a finite x and a finite non-zero y: the quotient rounded to the
      precision of z (to the larger precision of x and y when that of z is 0). With L
      the binary logarithm of the quotient rounded down and p the precision, the quotient
      is scaled by 2 ^ s, s = p - 1 - L, and rounded to an integer mantissa of p bits.\<close>
  "Quo z x y =
     (let p = (if prec z = 0 then max (prec x) (prec y) else prec z) in
      if mant x = 0 then \<lparr>prec = p, neg = (neg x \<noteq> neg y), mant = 0, exp2 = 0\<rparr>
      else
        let e0 = int (BitLen (mant x)) - int (BitLen (mant y));
            L = (if mant y * 2 ^ nat e0 \<le> mant x * 2 ^ nat (- e0) then e0 else e0 - 1);
            s = int p - 1 - L;
            m = roundHalfEven (mant x * 2 ^ nat s) (mant y * 2 ^ nat (- s))
        in \<lparr>prec = p, neg = (neg x \<noteq> neg y), mant = m, exp2 = exp2 x - exp2 y - s\<rparr>)"

fun fixedDigits :: "nat \<Rightarrow> int \<Rightarrow> string" where
  \<comment> \<open>The last w decimal digits of k, with leading zeros.\<close>
  "fixedDigits 0 k = []"
| "fixedDigits (Suc w) k = fixedDigits w (k div 10) @ [lowerDigit (nat (k mod 10))]"

definition Text_f :: "Float \<Rightarrow> nat \<Rightarrow> string" where
  \<comment> \<open>x.Text('f', d): the exact decimal expansion of the binary value, rounded to d
      digits after the point (to nearest, a tie to the even digit): a minus sign for a
      negative x, the integer part without leading zeros, the point, d digits.\<close>
  "Text_f x d =
     (let N = roundHalfEven (mant x * 10 ^ d * 2 ^ nat (exp2 x)) (2 ^ nat (- exp2 x)) in
      (if neg x then ''-'' else []) @ natText 10 (N div 10 ^ d) @
      (if 0 < d then ''.'' @ fixedDigits d (N mod 10 ^ d) else []))"

definition weiToEth :: "int \<Rightarrow> Float" where
  \<comment> \<open>f := new(big.Float).SetInt(x); den := big.NewFloat(1e18); f.Quo(f, den); return f\<close>
  "weiToEth x = (let f = SetInt x; den = NewFloat (10 ^ 18) in Quo f f den)"

section \<open>The JSON-RPC call\<close>

record rpcReq =
  Jsonrpc :: string
  Method :: string
  Params :: "string list"
  Id :: int

record rpcRes =
  ResJsonrpc :: string
  Result :: string
  Error :: "(int \<times> string) option"

text \<open>
  What the network answers to a request: http.Post fails, or the body is not the JSON of
  an \<open>rpcRes\<close>, or it is decoded into one. \<open>Result\<close> holds the raw JSON text of the
  result member (empty when there is none), \<open>Error\<close> the error member when present.
\<close>

datatype reply = PostError string | DecodeError string | Decoded rpcRes

record world =
  Getenv :: "string \<Rightarrow> string"
  Post :: "string \<Rightarrow> rpcReq \<Rightarrow> reply"

definition call :: "world \<Rightarrow> string \<Rightarrow> string \<Rightarrow> string list \<Rightarrow> string \<times> string option" where
  \<comment> \<open>The pair (json.RawMessage, error) that call returns: a nil slice is the empty byte
      sequence, a nil error is None.\<close>
  "call w url method params =
     (case Post w url \<lparr>Jsonrpc = ''2.0'', Method = method, Params = params, Id = 1\<rparr> of
        PostError err \<Rightarrow> ([], Some err)
      | DecodeError err \<Rightarrow> ([], Some err)
      | Decoded res \<Rightarrow>
          (case Error res of
             Some (code, message) \<Rightarrow>
               ([], Some (''rpc error '' @ intText 10 code @ '': '' @ message))
           | None \<Rightarrow> (Result res, None)))"

section \<open>The probe\<close>

text \<open>
  How a run can end without a report: os.Exit after the usage line, panic(err), or the
  runtime panic of a slice expression whose bounds are out of range.
\<close>

datatype abort = Exit int | PanicError string | PanicSliceBounds

definition and_then :: "abort + 'a \<Rightarrow> ('a \<Rightarrow> abort + 'b) \<Rightarrow> abort + 'b" where
  "and_then m f = (case m of Inl e \<Rightarrow> Inl e | Inr a \<Rightarrow> f a)"

definition slice :: "string \<Rightarrow> int \<Rightarrow> int \<Rightarrow> abort + string" where
  \<comment> \<open>The slice expression raw[low:high] on a byte slice: it panics unless
      0 <= low <= high <= cap(raw). The capacity is taken as the length; the probe only
      slices with high = len(raw) - 1, which is below both.\<close>
  "slice raw low high =
     (if 0 \<le> low \<and> low \<le> high \<and> high \<le> int (length raw)
      then Inr (take (nat high - nat low) (drop (nat low) raw))
      else Inl PanicSliceBounds)"

record report =
  Address :: string
  Block :: string
  Score :: int
  Reasons :: "string list"
  BalLatest :: string

definition clamp :: "int \<Rightarrow> int" where
  \<comment> \<open>if score > 100 { score = 100 }\<close>
  "clamp score = (if 100 < score then 100 else score)"

definition heuristics ::
  "world \<Rightarrow> string \<Rightarrow> string \<Rightarrow> int \<Rightarrow> int \<Rightarrow> int \<Rightarrow> int \<Rightarrow> int \<Rightarrow> string \<times> report" where
  \<comment> \<open>The second half of main, from the comment "simple heuristics" to the struct that is
      printed, as a function of the locals it reads; it returns the raw code result it
      fetched beside the struct. The score is a Go int; it stays below 2^63 by far.\<close>
  "heuristics w rpc addr latest balLatest balPast nonceNow noncePast =
     (let score = (0 :: int);
          reasons = ([] :: string list);
          balDiff = balPast - balLatest;
          (score, reasons) =
            (if 0 < sgn balDiff
             then (score + 35,
                   reasons @ [''balance drop ~'' @ Text_f (weiToEth balDiff) 6 @
                              '' ETH/100 blocks''])
             else (score, reasons));
          nonceDiff = nonceNow - noncePast;
          (score, reasons) =
            (if 20 < nonceDiff
             then (score + 25,
                   reasons @ [''high tx activity: +'' @ intText 10 nonceDiff @
                              '' nonce/100 blocks''])
             else (score, reasons));
          codeNowRaw = fst (call w rpc ''eth_getCode'' [addr, ''latest'']);
          (score, reasons) =
            (if 4 < length codeNowRaw
             then (score + 10, reasons @ [''address has code (smart wallet or contract)''])
             else (score, reasons));
          score = clamp score
      in (codeNowRaw,
          \<lparr>Address = addr, Block = Sprintf_0x latest, Score = score, Reasons = reasons,
           BalLatest = Text_f (weiToEth balLatest) 6\<rparr>))"

text \<open>
  The result of a run that reaches the end of main: the values of main's local variables
  at that point, \<open>out\<close> being the struct that is printed as JSON.
\<close>

record frame =
  latest :: int
  balLatest :: int
  balPast :: int
  pastBlock :: int
  nonceNow :: int
  noncePast :: int
  codeNowRaw :: string
  out :: report

definition main :: "world \<Rightarrow> abort + frame" where
  "main w =
     (let rpc = Getenv w ''RPC_URL''; addr = Getenv w ''ADDRESS'' in
      if rpc = [] \<or> addr = [] then Inl (Exit 1)
      else
        case call w rpc ''eth_blockNumber'' [] of
          (bnRaw, Some err) \<Rightarrow> Inl (PanicError err)
        | (bnRaw, None) \<Rightarrow>
        and_then (slice bnRaw 1 (int (length bnRaw) - 1)) (\<lambda>bn.
        let latest = hexToBig bn;
            balLatestRaw = fst (call w rpc ''eth_getBalance'' [addr, ''latest'']) in
        and_then (slice balLatestRaw 1 (int (length balLatestRaw) - 1)) (\<lambda>bl.
        let balLatest = hexToBig bl in
        and_then
          (if 100 < latest then
             (let pastBlock = latest - 100;
                  tag = Sprintf_0x pastBlock;
                  balPastRaw = fst (call w rpc ''eth_getBalance'' [addr, tag]) in
              and_then (slice balPastRaw 1 (int (length balPastRaw) - 1)) (\<lambda>bp.
              Inr (hexToBig bp, pastBlock)))
           else Inr (balLatest, latest))
          (\<lambda>(balPast, pastBlock).
        let nonceNowRaw = fst (call w rpc ''eth_getTransactionCount'' [addr, ''latest'']);
            noncePastRaw =
              fst (call w rpc ''eth_getTransactionCount'' [addr, Sprintf_0x pastBlock]) in
        and_then (slice nonceNowRaw 1 (int (length nonceNowRaw) - 1)) (\<lambda>nn.
        let nonceNow = hexToBig nn in
        and_then (slice noncePastRaw 1 (int (length noncePastRaw) - 1)) (\<lambda>np.
        let noncePast = hexToBig np;
            (codeNowRaw, out) =
              heuristics w rpc addr latest balLatest balPast nonceNow noncePast
        in Inr \<lparr>latest = latest, balLatest = balLatest, balPast = balPast,
                pastBlock = pastBlock, nonceNow = nonceNow, noncePast = noncePast,
                codeNowRaw = codeNowRaw, out = out\<rparr>))))))"

text \<open>
  Worlds for concrete runs: a node that answers each listed request (method and
  parameters) with the given raw result and refuses every other request, and the two
  environment variables. \<open>quoted s\<close> is the JSON text of a string that needs no escapes.
\<close>

definition quoted :: "string \<Rightarrow> string" where
  "quoted s = CHR 0x22 # s @ [CHR 0x22]"

definition answers ::
  "((string \<times> string list) \<times> string) list \<Rightarrow> string \<times> string list \<Rightarrow> reply" where
  "answers tbl q =
     (case map_of tbl q of
        None \<Rightarrow> PostError ''connection refused''
      | Some raw \<Rightarrow> Decoded \<lparr>ResJsonrpc = ''2.0'', Result = raw, Error = None\<rparr>)"

definition probeWorld :: "string \<Rightarrow> string \<Rightarrow> (string \<times> string list \<Rightarrow> reply) \<Rightarrow> world" where
  "probeWorld url address node =
     \<lparr>Getenv = (\<lambda>k. if k = ''RPC_URL'' then url
                    else if k = ''ADDRESS'' then address else []),
      Post = (\<lambda>u req. node (Method req, Params req))\<rparr>"




text \<open>
  A contract at block 1000 (0x3e8; the reference block is 900, 0x384) whose balance fell
  from 2 ether to 1.5 ether and whose transaction count rose from 5 to 26.
\<close>

definition drainedWorld :: world where
  "drainedWorld = probeWorld ''http://node'' ''0xabc'' (answers
     [((''eth_blockNumber'', []), quoted ''0x3e8''),
      ((''eth_getBalance'', [''0xabc'', ''latest'']), quoted ''0x14d1120d7b160000''),
      ((''eth_getBalance'', [''0xabc'', ''0x384'']), quoted ''0x1bc16d674ec80000''),
      ((''eth_getTransactionCount'', [''0xabc'', ''latest'']), quoted ''0x1a''),
      ((''eth_getTransactionCount'', [''0xabc'', ''0x384'']), quoted ''0x5''),
      ((''eth_getCode'', [''0xabc'', ''latest'']), quoted ''0x6080'')])"

text \<open>The same node when it refuses the code request.\<close>

definition codeRefusedWorld :: world where
  "codeRefusedWorld = probeWorld ''http://node'' ''0xabc'' (answers
     [((''eth_blockNumber'', []), quoted ''0x3e8''),
      ((''eth_getBalance'', [''0xabc'', ''latest'']), quoted ''0x14d1120d7b160000''),
      ((''eth_getBalance'', [''0xabc'', ''0x384'']), quoted ''0x1bc16d674ec80000''),
      ((''eth_getTransactionCount'', [''0xabc'', ''latest'']), quoted ''0x1a''),
      ((''eth_getTransactionCount'', [''0xabc'', ''0x384'']), quoted ''0x5'')])"

text \<open>
  A contract at block 1000 with one ether at both blocks and a transaction count that
  rose from 5 to 26.
\<close>

definition busyContractWorld :: world where
  "busyContractWorld = probeWorld ''http://node'' ''0xabc'' (answers
     [((''eth_blockNumber'', []), quoted ''0x3e8''),
      ((''eth_getBalance'', [''0xabc'', ''latest'']), quoted ''0xde0b6b3a7640000''),
      ((''eth_getBalance'', [''0xabc'', ''0x384'']), quoted ''0xde0b6b3a7640000''),
      ((''eth_getTransactionCount'', [''0xabc'', ''latest'']), quoted ''0x1a''),
      ((''eth_getTransactionCount'', [''0xabc'', ''0x384'']), quoted ''0x5''),
      ((''eth_getCode'', [''0xabc'', ''latest'']), quoted ''0x6080'')])"

text \<open>A node that answers the block number and refuses every later request.\<close>

definition blockOnlyWorld :: world where
  "blockOnlyWorld = probeWorld ''http://node'' ''0xabc'' (answers
     [((''eth_blockNumber'', []), quoted ''0x3e8'')])"

text \<open>A node whose block number is not hexadecimal.\<close>

definition badHexWorld :: world where
  "badHexWorld = probeWorld ''http://node'' ''0xabc'' (answers
     [((''eth_blockNumber'', []), quoted ''0xzz''),
      ((''eth_getBalance'', [''0xabc'', ''latest'']), quoted ''0x0''),
      ((''eth_getTransactionCount'', [''0xabc'', ''latest'']), quoted ''0x0''),
      ((''eth_getTransactionCount'', [''0xabc'', ''0x0'']), quoted ''0x0''),
      ((''eth_getCode'', [''0xabc'', ''latest'']), quoted ''0x'')])"

text \<open>
  A quiet address at block 16 whose code result is "0x0": one hexadecimal digit, half a
  byte.
\<close>

definition halfByteWorld :: world where
  "halfByteWorld = probeWorld ''http://node'' ''0xabc'' (answers
     [((''eth_blockNumber'', []), quoted ''0x10''),
      ((''eth_getBalance'', [''0xabc'', ''latest'']), quoted ''0x0''),
      ((''eth_getTransactionCount'', [''0xabc'', ''latest'']), quoted ''0x5''),
      ((''eth_getTransactionCount'', [''0xabc'', ''0x10'']), quoted ''0x5''),
      ((''eth_getCode'', [''0xabc'', ''latest'']), quoted ''0x0'')])"

text \<open>
  An address without code at block 1000 whose node answers the four given numbers, in the
  probe's own rendering: the balance at "latest", the balance at block 900, the
  transaction count at "latest" and the transaction count at block 900.
\<close>

definition pairWorld :: "int \<Rightarrow> int \<Rightarrow> int \<Rightarrow> int \<Rightarrow> world" where
  "pairWorld bl bp nn np = probeWorld ''http://node'' ''0xabc'' (answers
     [((''eth_blockNumber'', []), quoted ''0x3e8''),
      ((''eth_getBalance'', [''0xabc'', ''latest'']), quoted (Sprintf_0x bl)),
      ((''eth_getBalance'', [''0xabc'', ''0x384'']), quoted (Sprintf_0x bp)),
      ((''eth_getTransactionCount'', [''0xabc'', ''latest'']), quoted (Sprintf_0x nn)),
      ((''eth_getTransactionCount'', [''0xabc'', ''0x384'']), quoted (Sprintf_0x np)),
      ((''eth_getCode'', [''0xabc'', ''latest'']), quoted ''0x'')])"


definition drainedFrame :: frame where
  "drainedFrame =
     \<lparr>latest = 1000, balLatest = 1500000000000000000, balPast = 2000000000000000000,
      pastBlock = 900, nonceNow = 26, noncePast = 5, codeNowRaw = quoted ''0x6080'',
      out = \<lparr>Address = ''0xabc'', Block = ''0x3e8'', Score = 70,
             Reasons = [''balance drop ~0.500000 ETH/100 blocks'',
                        ''high tx activity: +21 nonce/100 blocks'',
                        ''address has code (smart wallet or contract)''],
             BalLatest = ''1.500000''\<rparr>\<rparr>"

definition busyContractFrame :: frame where
  "busyContractFrame =
     \<lparr>latest = 1000, balLatest = 1000000000000000000, balPast = 1000000000000000000,
      pastBlock = 900, nonceNow = 26, noncePast = 5, codeNowRaw = quoted ''0x6080'',
      out = \<lparr>Address = ''0xabc'', Block = ''0x3e8'', Score = 35,
             Reasons = [''high tx activity: +21 nonce/100 blocks'',
                        ''address has code (smart wallet or contract)''],
             BalLatest = ''1.000000''\<rparr>\<rparr>"

section \<open>Reference notions the properties are stated with\<close>

definition decimalDigits :: "char set" where
  "decimalDigits = set ''0123456789''"

definition hexDigits :: "char set" where
  "hexDigits = set ''0123456789abcdefABCDEF''"

definition digitOf :: "char \<Rightarrow> int" where
  \<comment> \<open>The value of a decimal or hexadecimal digit, of either case.\<close>
  "digitOf c =
     (if c \<in> set ''0123456789'' then int (of_char c) - 48
      else if c \<in> set ''abcdef'' then int (of_char c) - 87
      else int (of_char c) - 55)"

fun positional :: "int \<Rightarrow> string \<Rightarrow> int" where
  \<comment> \<open>The number a string of digits denotes in a base: each digit times the power of the
      base that its position gives it.\<close>
  "positional b [] = 0"
| "positional b (c # cs) = digitOf c * b ^ length cs + positional b cs"

definition inner :: "string \<Rightarrow> string" where
  \<comment> \<open>A raw result without its first and last byte: the text between the quotes of a
      JSON string.\<close>
  "inner raw = butlast (tl raw)"

definition answered ::
  "world \<Rightarrow> string \<Rightarrow> string \<Rightarrow> string \<Rightarrow> string \<Rightarrow> string \<Rightarrow> string \<Rightarrow> bool" where
  \<comment> \<open>What the node returns to the requests of a run in a world with both environment
      variables set: the block number without an error, then, with or without an error,
      the raw results for the balance at "latest", the balance at the reference block
      (requested only when the latest block is above 100), the two transaction counts and
      the code. Each result that is sliced has its two quotes at least.\<close>
  "answered w bnRaw blRaw bpRaw nnRaw npRaw codeRaw \<longleftrightarrow>
     (let rpc = Getenv w ''RPC_URL''; addr = Getenv w ''ADDRESS'';
          lt = hexToBig (inner bnRaw);
          pb = (if 100 < lt then lt - 100 else lt)
      in rpc \<noteq> [] \<and> addr \<noteq> [] \<and>
         call w rpc ''eth_blockNumber'' [] = (bnRaw, None) \<and> 2 \<le> length bnRaw \<and>
         fst (call w rpc ''eth_getBalance'' [addr, ''latest'']) = blRaw \<and> 2 \<le> length blRaw \<and>
         (100 < lt \<longrightarrow>
            fst (call w rpc ''eth_getBalance'' [addr, Sprintf_0x pb]) = bpRaw \<and>
            2 \<le> length bpRaw) \<and>
         fst (call w rpc ''eth_getTransactionCount'' [addr, ''latest'']) = nnRaw \<and>
         2 \<le> length nnRaw \<and>
         fst (call w rpc ''eth_getTransactionCount'' [addr, Sprintf_0x pb]) = npRaw \<and>
         2 \<le> length npRaw \<and>
         fst (call w rpc ''eth_getCode'' [addr, ''latest'']) = codeRaw)"

definition decodedByteLength :: "string \<Rightarrow> nat" where
  \<comment> \<open>The number of whole bytes that the hexadecimal digits of a code result encode: the
      result is a JSON string, "0x" and two digits for each byte.\<close>
  "decodedByteLength raw = length (drop 2 (inner raw)) div 2"

definition nearestEven :: "int \<Rightarrow> int \<Rightarrow> int \<Rightarrow> bool" where
  \<comment> \<open>r is the integer nearest to a / b for a positive b, and the even one of the two
      nearest when a / b lies half way between them.\<close>
  "nearestEven r a b \<longleftrightarrow>
     2 * \<bar>r * b - a\<bar> < b \<or> (2 * \<bar>r * b - a\<bar> = b \<and> even r)"

section \<open>Runs of the probe\<close>

lemma and_then_Inr: "and_then m f = Inr r \<longleftrightarrow> (\<exists>a. m = Inr a \<and> f a = Inr r)"
  by (cases m) (simp_all add: and_then_def)

lemma slice_quotes:
  "slice raw 1 (int (length raw) - 1) =
     (if 2 \<le> length raw then Inr (butlast (tl raw)) else Inl PanicSliceBounds)"
proof -
  have a: "nat (int (length raw) - 1) - nat 1 = length (tl raw) - 1" by simp
  have b: "drop (nat 1) raw = tl raw" by (simp add: drop_Suc)
  show ?thesis unfolding slice_def a b butlast_conv_take by auto
qed

lemma call_error_nil: "snd (call w url method params) \<noteq> None \<Longrightarrow> fst (call w url method params) = []"
  by (auto simp: call_def split: reply.splits option.splits)

lemma heuristics_fst:
  "fst (heuristics w rpc addr l bl bp nn np) = fst (call w rpc ''eth_getCode'' [addr, ''latest''])"
  by (simp add: heuristics_def Let_def split: prod.splits)

lemma clamp_small: "s \<le> 100 \<Longrightarrow> clamp s = s"
  by (simp add: clamp_def)

lemma heuristics_Score:
  "Score (snd (heuristics w rpc addr l bl bp nn np)) =
     clamp ((if 0 < bp - bl then 35 else 0) + (if 20 < nn - np then 25 else 0) +
       (if 4 < length (fst (call w rpc ''eth_getCode'' [addr, ''latest''])) then 10 else 0))"
  by (simp add: heuristics_def Let_def split: prod.splits)

lemma heuristics_Reasons:
  "Reasons (snd (heuristics w rpc addr l bl bp nn np)) =
     (if 0 < bp - bl
      then [''balance drop ~'' @ Text_f (weiToEth (bp - bl)) 6 @ '' ETH/100 blocks'']
      else []) @
     (if 20 < nn - np
      then [''high tx activity: +'' @ intText 10 (nn - np) @ '' nonce/100 blocks'']
      else []) @
     (if 4 < length (fst (call w rpc ''eth_getCode'' [addr, ''latest'']))
      then [''address has code (smart wallet or contract)''] else [])"
  by (simp add: heuristics_def Let_def split: prod.splits)

lemma heuristics_fields:
  "Address (snd (heuristics w rpc addr l bl bp nn np)) = addr"
  "Block (snd (heuristics w rpc addr l bl bp nn np)) = Sprintf_0x l"
  "BalLatest (snd (heuristics w rpc addr l bl bp nn np)) = Text_f (weiToEth bl) 6"
  by (simp_all add: heuristics_def Let_def split: prod.splits)

lemma main_frame:
  assumes "main w = Inr fr"
  shows "pastBlock fr = (if 100 < latest fr then latest fr - 100 else latest fr)"
    and "\<not> 100 < latest fr \<Longrightarrow> balPast fr = balLatest fr"
    and "(codeNowRaw fr, out fr) =
           heuristics w (Getenv w ''RPC_URL'') (Getenv w ''ADDRESS'')
             (latest fr) (balLatest fr) (balPast fr) (nonceNow fr) (noncePast fr)"
  using assms
  by (auto simp: main_def Let_def and_then_Inr case_prod_beta split: if_splits option.splits)

lemma main_codeNowRaw:
  assumes "main w = Inr fr"
  shows "codeNowRaw fr =
           fst (call w (Getenv w ''RPC_URL'') ''eth_getCode'' [Getenv w ''ADDRESS'', ''latest''])"
  using main_frame(3) [OF assms] heuristics_fst by (metis fst_conv)

lemma main_out:
  assumes "main w = Inr fr"
  shows "out fr =
           snd (heuristics w (Getenv w ''RPC_URL'') (Getenv w ''ADDRESS'')
             (latest fr) (balLatest fr) (balPast fr) (nonceNow fr) (noncePast fr))"
  using main_frame(3) [OF assms] by (metis snd_conv)

lemma main_Score:
  assumes "main w = Inr fr"
  shows "Score (out fr) =
           clamp ((if 0 < balPast fr - balLatest fr then 35 else 0) +
                  (if 20 < nonceNow fr - noncePast fr then 25 else 0) +
                  (if 4 < length (codeNowRaw fr) then 10 else 0))"
  unfolding main_out [OF assms] heuristics_Score main_codeNowRaw [OF assms] ..

lemma main_Reasons:
  assumes "main w = Inr fr"
  shows "Reasons (out fr) =
     (if 0 < balPast fr - balLatest fr
      then [''balance drop ~'' @ Text_f (weiToEth (balPast fr - balLatest fr)) 6 @
            '' ETH/100 blocks'']
      else []) @
     (if 20 < nonceNow fr - noncePast fr
      then [''high tx activity: +'' @ intText 10 (nonceNow fr - noncePast fr) @
            '' nonce/100 blocks'']
      else []) @
     (if 4 < length (codeNowRaw fr)
      then [''address has code (smart wallet or contract)''] else [])"
  unfolding main_out [OF assms] heuristics_Reasons main_codeNowRaw [OF assms] ..

lemma main_Score_sum:
  assumes "main w = Inr fr"
  shows "Score (out fr) =
           (if 0 < balPast fr - balLatest fr then 35 else 0) +
           (if 20 < nonceNow fr - noncePast fr then 25 else 0) +
           (if 4 < length (codeNowRaw fr) then 10 else 0)"
  unfolding main_Score [OF assms] by (rule clamp_small) simp

lemma intText_21: "intText 10 21 = ''21''"
  by code_simp


lemma run_drained: "main drainedWorld = Inr drainedFrame"
  by code_simp

lemma run_busyContract: "main busyContractWorld = Inr busyContractFrame"
  by code_simp

text \<open>
  C10. A call that returns an error returns the nil slice with it. The probe drops the
  error of every call after the first; slicing the nil result of a balance or nonce
  request with raw[1:len(raw)-1] is out of range. So a run that got its block number and
  then meets an error on a balance or nonce request ends in the slice-bounds panic, with
  no report.
\<close>

theorem secondary_fetch_error_panics:
  assumes "Getenv w ''RPC_URL'' = rpc" and "Getenv w ''ADDRESS'' = addr"
      and "rpc \<noteq> []" and "addr \<noteq> []"
      and "call w rpc ''eth_blockNumber'' [] = (bnRaw, None)" and "2 \<le> length bnRaw"
      and "lt = hexToBig (butlast (tl bnRaw))"
      and "pb = (if 100 < lt then lt - 100 else lt)"
      and "snd (call w rpc ''eth_getBalance'' [addr, ''latest'']) \<noteq> None \<or>
           (100 < lt \<and> snd (call w rpc ''eth_getBalance'' [addr, Sprintf_0x pb]) \<noteq> None) \<or>
           snd (call w rpc ''eth_getTransactionCount'' [addr, ''latest'']) \<noteq> None \<or>
           snd (call w rpc ''eth_getTransactionCount'' [addr, Sprintf_0x pb]) \<noteq> None"
  shows "main w = Inl PanicSliceBounds \<and>
         (snd (call w u m ps) \<noteq> None \<longrightarrow> fst (call w u m ps) = []) \<and>
         slice [] 1 (int (length ([] :: string)) - 1) = Inl PanicSliceBounds"
proof (intro conjI impI)
  show "fst (call w u m ps) = []" if "snd (call w u m ps) \<noteq> None"
    using that by (rule call_error_nil)
  show "slice [] 1 (int (length ([] :: string)) - 1) = Inl PanicSliceBounds"
    by (simp add: slice_def)
  have short: "\<And>m ps. snd (call w rpc m ps) \<noteq> None \<Longrightarrow> \<not> 2 \<le> length (fst (call w rpc m ps))"
    by (simp add: call_error_nil)
  show "main w = Inl PanicSliceBounds"
    using assms(9) short
    unfolding main_def Let_def assms(1,2) slice_quotes
    by (auto simp: assms(3-8) and_then_def split: sum.splits)
qed

lemma call_blockOnly:
  "call blockOnlyWorld ''http://node'' ''eth_blockNumber'' [] = (quoted ''0x3e8'', None)"
  "snd (call blockOnlyWorld ''http://node'' ''eth_getBalance'' [''0xabc'', ''latest'']) \<noteq> None"
  "Getenv blockOnlyWorld ''RPC_URL'' = ''http://node''"
  "Getenv blockOnlyWorld ''ADDRESS'' = ''0xabc''"
  by code_simp+

theorem secondary_fetch_error_panics_witness:
  "call blockOnlyWorld ''http://node'' ''eth_blockNumber'' [] = (quoted ''0x3e8'', None) \<and>
   snd (call blockOnlyWorld ''http://node'' ''eth_getBalance'' [''0xabc'', ''latest'']) \<noteq> None \<and>
   main blockOnlyWorld = Inl PanicSliceBounds"
proof -
  have l: "2 \<le> length (quoted ''0x3e8'')" by (simp add: quoted_def)
  have n: "''http://node'' \<noteq> []" "''0xabc'' \<noteq> []" by simp_all
  show ?thesis
    using secondary_fetch_error_panics [OF call_blockOnly(3,4) n call_blockOnly(1) l refl refl
      disjI1 [OF call_blockOnly(2)]] call_blockOnly(1,2)
    by simp
qed




text \<open>
  C2. When the node refuses the code request, call returns the error, and the run still
  ends with a report: the balance and activity rules scored, the address taken to have
  no code.
\<close>

theorem code_fetch_error_yields_report:
  "call codeRefusedWorld ''http://node'' ''eth_getCode'' [''0xabc'', ''latest''] =
     ([], Some ''connection refused'') \<and>
   main codeRefusedWorld =
     Inr \<lparr>latest = 1000, balLatest = 1500000000000000000, balPast = 2000000000000000000,
          pastBlock = 900, nonceNow = 26, noncePast = 5, codeNowRaw = [],
          out = \<lparr>Address = ''0xabc'', Block = ''0x3e8'', Score = 60,
                 Reasons = [''balance drop ~0.500000 ETH/100 blocks'',
                            ''high tx activity: +21 nonce/100 blocks''],
                 BalLatest = ''1.500000''\<rparr>\<rparr>"
  by code_simp

section \<open>Hexadecimal text\<close>

lemma hexDigit_all:
  "\<forall>c \<in> set ''0123456789abcdefABCDEF''. digitVal c < 16 \<and> int (digitVal c) = digitOf c \<and> c \<noteq> CHR ''-'' \<and> c \<noteq> CHR ''+'' \<and> c \<noteq> CHR ''x''"
  by code_simp

lemma hexDigit_vals:
  "c \<in> hexDigits \<Longrightarrow> digitVal c < 16 \<and> int (digitVal c) = digitOf c \<and> c \<noteq> CHR ''-'' \<and> c \<noteq> CHR ''+'' \<and> c \<noteq> CHR ''x''"
  unfolding hexDigits_def using hexDigit_all by blast


lemma lowerDigit_all:
  "\<forall>d \<in> set [0..<16]. lowerDigit d \<in> set ''0123456789abcdefABCDEF'' \<and> digitOf (lowerDigit d) = int d"
  by code_simp

lemma lowerDigit_vals:
  assumes "d < 16"
  shows "lowerDigit d \<in> hexDigits \<and> digitOf (lowerDigit d) = int d"
  using lowerDigit_all assms by (simp add: hexDigits_def)

lemma positional_append:
  "positional b (xs @ ys) = positional b xs * b ^ length ys + positional b ys"
  by (induction xs) (simp_all add: power_add algebra_simps)

lemma scanDigits_hex:
  "set ds \<subseteq> hexDigits \<Longrightarrow>
   scanDigits 16 acc n ds = (acc * 16 ^ length ds + positional 16 ds, n + length ds, [])"
proof (induction ds arbitrary: acc n)
  case Nil
  then show ?case by simp
next
  case (Cons c cs)
  from Cons.prems have c: "c \<in> hexDigits" and cs: "set cs \<subseteq> hexDigits" by auto
  from hexDigit_vals [OF c] have v: "digitVal c < 16" "int (digitVal c) = digitOf c" by auto
  show ?case using v Cons.IH [OF cs] by (simp add: algebra_simps)
qed

lemma TrimPrefix_0x: "TrimPrefix (''0x'' @ s) ''0x'' = s"
  by (simp add: TrimPrefix_def)

lemma TrimPrefix_hex: "set ds \<subseteq> hexDigits \<Longrightarrow> TrimPrefix ds ''0x'' = ds"
proof (cases ds)
  case Nil
  then show ?thesis by (simp add: TrimPrefix_def)
next
  case (Cons a as)
  assume h: "set ds \<subseteq> hexDigits"
  show ?thesis
  proof (cases as)
    case Nil
    with Cons show ?thesis by (simp add: TrimPrefix_def)
  next
    case (Cons b bs)
    with h \<open>ds = a # as\<close> have "b \<in> hexDigits" by auto
    from hexDigit_vals [OF this] have "b \<noteq> CHR ''x''" by simp
    with Cons \<open>ds = a # as\<close> show ?thesis by (simp add: TrimPrefix_def)
  qed
qed

lemma SetString_hex:
  assumes "ds \<noteq> []" and "set ds \<subseteq> hexDigits"
  shows "SetString z ds 16 = (positional 16 ds, True)"
proof -
  from assms(1) obtain c cs where ds: "ds = c # cs" by (cases ds) auto
  with assms(2) have "c \<in> hexDigits" by auto
  from hexDigit_vals [OF this] have ns: "c \<noteq> CHR ''-''" "c \<noteq> CHR ''+''" by auto
  have "scanDigits 16 0 0 ds = (positional 16 ds, length ds, [])"
    using scanDigits_hex [OF assms(2), of 0 0] by simp
  then show ?thesis using ns by (simp add: SetString_def ds)
qed

lemma SetString_minus_hex:
  assumes "ds \<noteq> []" and "set ds \<subseteq> hexDigits"
  shows "SetString z (CHR ''-'' # ds) 16 = (- positional 16 ds, True)"
proof -
  have "scanDigits 16 0 0 ds = (positional 16 ds, length ds, [])"
    using scanDigits_hex [OF assms(2), of 0 0] by simp
  then show ?thesis using assms(1) by (simp add: SetString_def)
qed

lemma natText_16:
  "0 \<le> n \<Longrightarrow> natText 16 n \<noteq> [] \<and> set (natText 16 n) \<subseteq> hexDigits \<and> positional 16 (natText 16 n) = n"
proof (induction "16 :: nat" n rule: natText.induct)
  case (1 n)
  show ?case
  proof (cases "n < 16")
    case True
    with 1(2) have "nat n < 16" by simp
    from lowerDigit_vals [OF this] 1(2) True show ?thesis
      by (simp add: natText.simps [of 16 n])
  next
    case False
    then have ih: "natText 16 (n div 16) \<noteq> [] \<and> set (natText 16 (n div 16)) \<subseteq> hexDigits \<and>
        positional 16 (natText 16 (n div 16)) = n div 16"
      using 1 by simp
    have "nat (n mod 16) < 16" by simp
    from lowerDigit_vals [OF this] have ld: "lowerDigit (nat (n mod 16)) \<in> hexDigits"
      "digitOf (lowerDigit (nat (n mod 16))) = n mod 16" by auto
    show ?thesis using False ih ld
      by (simp add: natText.simps [of 16 n] positional_append)
  qed
qed

lemma hexToBig_Sprintf: "hexToBig (Sprintf_0x z) = z"
proof (cases "z < 0")
  case True
  then have a: "0 \<le> \<bar>z\<bar>" by simp
  from natText_16 [OF a] True show ?thesis
    by (simp add: hexToBig_def Sprintf_0x_def intText_def TrimPrefix_def SetString_minus_hex)
next
  case False
  then have a: "0 \<le> z" by simp
  from natText_16 [OF a] False show ?thesis
    by (simp add: hexToBig_def Sprintf_0x_def intText_def TrimPrefix_def SetString_hex)
qed

text \<open>
  C4, as the code has it. For a text that is a non-empty run of hexadecimal digits of
  either case, with or without the prefix "0x", hexToBig returns the number the digits
  denote in base 16, at any width: it inverts the probe's own "0x%x" rendering of every
  integer, and the 64 digits f give 2^256 - 1. SetString succeeds on such digits; hexToBig
  has no failure result of its own.
\<close>

theorem hexToBig_hex_strings:
  assumes "ds \<noteq> []" and "set ds \<subseteq> hexDigits"
  shows "hexToBig (''0x'' @ ds) = positional 16 ds \<and> hexToBig ds = positional 16 ds \<and>
         SetString 0 ds 16 = (positional 16 ds, True) \<and>
         hexToBig (Sprintf_0x z) = z \<and>
         hexToBig (''0x'' @ replicate 64 (CHR ''f'')) = 2 ^ 256 - 1"
proof -
  have a: "hexToBig (''0x'' @ ds) = positional 16 ds"
    unfolding hexToBig_def TrimPrefix_0x SetString_hex [OF assms] by simp
  have b: "hexToBig ds = positional 16 ds"
    unfolding hexToBig_def TrimPrefix_hex [OF assms(2)] SetString_hex [OF assms] by simp
  have c: "hexToBig (''0x'' @ replicate 64 (CHR ''f'')) = 2 ^ 256 - 1"
    by code_simp
  show ?thesis using a b c SetString_hex [OF assms] hexToBig_Sprintf by simp
qed

theorem hexToBig_hex_strings_witness:
  "''1F'' \<noteq> [] \<and> set ''1F'' \<subseteq> hexDigits \<and> hexToBig ''0x1F'' = 31 \<and> hexToBig ''1F'' = 31 \<and>
   hexToBig (Sprintf_0x (- 31)) = - 31"
proof -
  have n: "''1F'' \<noteq> []" by simp
  have h: "set ''1F'' \<subseteq> hexDigits" by (simp add: hexDigits_def)
  have p: "positional 16 ''1F'' = 31" by (simp add: digitOf_def)
  show ?thesis using hexToBig_hex_strings [OF n h, of "- 31"] h p by simp
qed

text \<open>
  C4 fails as stated: on the remainder "zz" SetString reports failure, hexToBig returns 0
  all the same, and a run whose block number is "0xzz" ends with a report for block 0.
\<close>

theorem bad_hex_is_not_rejected:
  "SetString 0 ''zz'' 16 = (0, False) \<and> hexToBig ''0xzz'' = 0 \<and>
   main badHexWorld =
     Inr \<lparr>latest = 0, balLatest = 0, balPast = 0, pastBlock = 0, nonceNow = 0, noncePast = 0,
          codeNowRaw = quoted ''0x'',
          out = \<lparr>Address = ''0xabc'', Block = ''0x0'', Score = 0, Reasons = [],
                 BalLatest = ''0.000000''\<rparr>\<rparr>"
  by code_simp

section \<open>Ether text\<close>

lemma roundHalfEven_near:
  assumes "0 < b"
  shows "2 * \<bar>roundHalfEven a b * b - a\<bar> \<le> b"
proof -
  define q r where "q = a div b" and "r = a mod b"
  have a: "a = q * b + r" by (simp add: q_def r_def)
  have r: "0 \<le> r" "r < b" using assms by (simp_all add: r_def)
  have up: "(q + 1) * b - a = b - r" unfolding a by (simp add: algebra_simps)
  have dn: "q * b - a = - r" unfolding a by simp
  have "roundHalfEven a b = q \<and> 2 * r \<le> b \<or> roundHalfEven a b = q + 1 \<and> b \<le> 2 * r"
    unfolding roundHalfEven_def Let_def q_def [symmetric] r_def [symmetric] by auto
  then show ?thesis
  proof
    assume h: "roundHalfEven a b = q \<and> 2 * r \<le> b"
    then show ?thesis using r dn by simp
  next
    assume h: "roundHalfEven a b = q + 1 \<and> b \<le> 2 * r"
    then show ?thesis using r up by simp
  qed
qed

lemma roundHalfEven_nonneg:
  assumes "0 \<le> a" and "0 < b"
  shows "0 \<le> roundHalfEven a b"
proof -
  have "0 \<le> a div b" using assms by (simp add: pos_imp_zdiv_nonneg_iff)
  then show ?thesis unfolding roundHalfEven_def Let_def by auto
qed

lemma nearest_micro:
  fixes a :: int and s :: nat
  assumes "0 \<le> a" and "59 \<le> s"
  defines "m \<equiv> roundHalfEven (a * 2 ^ s) (10 ^ 18)"
  defines "N \<equiv> roundHalfEven (m * 10 ^ 6) (2 ^ s)"
  shows "0 \<le> N \<and> \<bar>N * 10 ^ 12 - a\<bar> \<le> 5 * 10 ^ 11"
proof -
  define K :: int where "K = 2 ^ s"
  have K59: "(2 :: int) ^ 59 \<le> K" unfolding K_def using assms(2) by (intro power_increasing) auto
  then have Kpos: "0 < K" by simp
  have Kbig: "(10 :: int) ^ 18 < 2 * K" using K59 by simp
  have m0: "0 \<le> m" unfolding m_def using assms(1) by (intro roundHalfEven_nonneg) auto
  have N0: "0 \<le> N" unfolding N_def K_def [symmetric] using m0 Kpos
    by (intro roundHalfEven_nonneg) auto
  have A: "2 * \<bar>N * K - m * 10 ^ 6\<bar> \<le> K"
    unfolding N_def K_def [symmetric] using Kpos by (rule roundHalfEven_near)
  have B: "2 * \<bar>m * 10 ^ 18 - a * K\<bar> \<le> 10 ^ 18"
    unfolding m_def K_def [symmetric] by (rule roundHalfEven_near) simp
  define E where "E = N * 10 ^ 12 - a"
  define U where "U = N * K - m * 10 ^ 6"
  define V where "V = m * 10 ^ 18 - a * K"
  define c :: int where "c = 10 ^ 12"
  have c0: "0 \<le> c" unfolding c_def by simp
  have eq: "E * K = c * U + V"
    unfolding E_def U_def V_def c_def by (simp add: algebra_simps)
  have "\<bar>c * U + V\<bar> \<le> \<bar>c * U\<bar> + \<bar>V\<bar>" by (rule abs_triangle_ineq)
  also have "\<bar>c * U\<bar> = c * \<bar>U\<bar>" using c0 by (simp add: abs_mult)
  finally have t: "\<bar>E * K\<bar> \<le> c * \<bar>U\<bar> + \<bar>V\<bar>" unfolding eq .
  have A': "2 * \<bar>U\<bar> \<le> K" using A unfolding U_def .
  have B': "2 * \<bar>V\<bar> \<le> 10 ^ 18" using B unfolding V_def .
  have "2 * (c * \<bar>U\<bar>) \<le> c * K" using A' c0 by (simp add: mult_left_mono mult.left_commute)
  with t B' Kbig have "2 * \<bar>E * K\<bar> < c * K + 2 * K" by linarith
  moreover have "\<bar>E * K\<bar> = \<bar>E\<bar> * K" using Kpos by (simp add: abs_mult)
  ultimately have "(2 * \<bar>E\<bar>) * K < (c + 2) * K" by (simp add: algebra_simps)
  then have "2 * \<bar>E\<bar> < c + 2" using Kpos by (simp only: mult_less_cancel_right_pos)
  then have "\<bar>E\<bar> \<le> 5 * 10 ^ 11" unfolding c_def by simp
  with N0 show ?thesis unfolding E_def by simp
qed

lemma BitLen_1e18: "BitLen (10 ^ 18) = 60"
  by code_simp

lemma weiToEth_zero: "weiToEth 0 = \<lparr>prec = 64, neg = False, mant = 0, exp2 = 0\<rparr>"
  by code_simp

lemma BitLen_1e18_numeral: "BitLen 1000000000000000000 = 60"
  by code_simp

lemma weiToEth_unfold:
  assumes "x \<noteq> 0"
  shows "weiToEth x =
    (let p = max (BitLen \<bar>x\<bar>) 64;
         e0 = int (BitLen \<bar>x\<bar>) - 60;
         L = (if 10 ^ 18 * 2 ^ nat e0 \<le> \<bar>x\<bar> * 2 ^ nat (- e0) then e0 else e0 - 1);
         s = int p - 1 - L
     in \<lparr>prec = p, neg = (x < 0),
         mant = roundHalfEven (\<bar>x\<bar> * 2 ^ nat s) (10 ^ 18 * 2 ^ nat (- s)), exp2 = - s\<rparr>)"
  using assms
  unfolding weiToEth_def Quo_def SetInt_def NewFloat_def
  by (simp add: Let_def BitLen_1e18_numeral)

lemma weiToEth_nonzero:
  assumes "x \<noteq> 0"
  shows "\<exists>s p. 59 \<le> s \<and>
           weiToEth x = \<lparr>prec = p, neg = (x < 0),
                         mant = roundHalfEven (\<bar>x\<bar> * 2 ^ s) (10 ^ 18), exp2 = - int s\<rparr>"
proof -
  define p where "p = max (BitLen \<bar>x\<bar>) 64"
  define e0 where "e0 = int (BitLen \<bar>x\<bar>) - 60"
  define L where "L = (if 10 ^ 18 * 2 ^ nat e0 \<le> \<bar>x\<bar> * 2 ^ nat (- e0) then e0 else e0 - 1)"
  define s where "s = int p - 1 - L"
  have "L \<le> e0" unfolding L_def by simp
  moreover have "int (BitLen \<bar>x\<bar>) \<le> int p" unfolding p_def by simp
  ultimately have s59: "59 \<le> s" unfolding s_def e0_def by linarith
  have ns: "nat (- s) = 0" using s59 by simp
  have "weiToEth x = \<lparr>prec = p, neg = (x < 0),
          mant = roundHalfEven (\<bar>x\<bar> * 2 ^ nat s) (10 ^ 18 * 2 ^ nat (- s)), exp2 = - s\<rparr>"
    unfolding weiToEth_unfold [OF assms] Let_def p_def e0_def L_def s_def ..
  then have "weiToEth x = \<lparr>prec = p, neg = (x < 0),
          mant = roundHalfEven (\<bar>x\<bar> * 2 ^ nat s) (10 ^ 18), exp2 = - int (nat s)\<rparr>"
    unfolding ns using s59 by simp
  moreover have "59 \<le> nat s" using s59 by simp
  ultimately show ?thesis by blast
qed


lemma BitLen_bounds:
  "0 < n \<Longrightarrow> 2 ^ (BitLen n - 1) \<le> n \<and> n < 2 ^ BitLen n"
proof (induction n rule: BitLen.induct)
  case (1 n)
  show ?case
  proof (cases "n div 2 \<le> 0")
    case True
    with 1(2) have "n = 1" by linarith
    then show ?thesis by (simp add: BitLen.simps [of 1] BitLen.simps [of 0])
  next
    case False
    then have h: "0 < n div 2" by simp
    from 1(1) 1(2) h have ih: "2 ^ (BitLen (n div 2) - 1) \<le> n div 2" "n div 2 < 2 ^ BitLen (n div 2)"
      by simp_all
    have k: "0 < BitLen (n div 2)" using h by (simp add: BitLen.simps [of "n div 2"])
    have b: "BitLen n = Suc (BitLen (n div 2))" using 1(2) by (simp add: BitLen.simps [of n])
    have p: "(2::int) ^ BitLen (n div 2) = 2 * 2 ^ (BitLen (n div 2) - 1)"
      using k by (cases "BitLen (n div 2)") simp_all
    show ?thesis unfolding b using ih p by simp linarith
  qed
qed

lemma roundHalfEven_ge:
  assumes "0 < b" and "c * b \<le> a"
  shows "c \<le> roundHalfEven a b"
proof -
  have "(c * b) div b \<le> a div b" using assms by (intro zdiv_mono1) auto
  then have "c \<le> a div b" using assms(1) by simp
  then show ?thesis unfolding roundHalfEven_def Let_def by auto
qed

lemma roundHalfEven_le:
  assumes "0 < b" and "a \<le> c * b"
  shows "roundHalfEven a b \<le> c"
proof -
  have "a div b \<le> (c * b) div b" using assms by (intro zdiv_mono1) auto
  then have q: "a div b \<le> c" using assms(1) by simp
  show ?thesis
  proof (cases "a div b = c")
    case True
    have "a = a div b * b + a mod b" by simp
    with True assms(2) have "a mod b \<le> 0" by (metis add_le_same_cancel1)
    moreover have "0 \<le> a mod b" using assms(1) by simp
    ultimately have "a mod b = 0" by simp
    with True assms(1) show ?thesis unfolding roundHalfEven_def Let_def by simp
  next
    case False
    with q have "a div b + 1 \<le> c" by simp
    then show ?thesis unfolding roundHalfEven_def Let_def by auto
  qed
qed

text \<open>
  The quotient is normalised: for a non-zero x the mantissa of weiToEth x lies between
  2 ^ (p - 1) and 2 ^ p, p being its precision, the larger of 64 and the bit length of x.
\<close>

lemma weiToEth_mantissa:
  assumes "x \<noteq> 0"
  shows "2 ^ (prec (weiToEth x) - 1) \<le> mant (weiToEth x) \<and>
         mant (weiToEth x) \<le> 2 ^ prec (weiToEth x) \<and>
         prec (weiToEth x) = max (BitLen \<bar>x\<bar>) 64"
proof -
  define a where "a = \<bar>x\<bar>"
  have a0: "0 < a" using assms by (simp add: a_def)
  define bx where "bx = BitLen a"
  define p where "p = max bx 64"
  define e0 where "e0 = int bx - 60"
  define X where "X = a * 2 ^ nat (- e0)"
  define Y :: int where "Y = 10 ^ 18 * 2 ^ nat e0"
  define L where "L = (if Y \<le> X then e0 else e0 - 1)"
  define s where "s = int p - 1 - L"
  have W: "weiToEth x = \<lparr>prec = p, neg = (x < 0),
          mant = roundHalfEven (a * 2 ^ nat s) (10 ^ 18 * 2 ^ nat (- s)), exp2 = - s\<rparr>"
    unfolding weiToEth_unfold [OF assms] Let_def s_def L_def X_def Y_def e0_def p_def bx_def a_def ..
  from BitLen_bounds [OF a0] have bnd: "2 ^ (bx - 1) \<le> a" "a < 2 ^ bx"
    unfolding bx_def by simp_all
  have bx1: "1 \<le> bx" using bnd(2) a0 by (cases bx) simp_all
  have p2: "(2::int) ^ bx = 2 * 2 ^ (bx - 1)" using bx1 by (cases bx) simp_all
  have XY: "X < 2 * Y \<and> Y < 2 * X"
  proof (cases "60 \<le> bx")
    case True
    then have e: "nat e0 = bx - 60" "nat (- e0) = 0" unfolding e0_def by simp_all
    define k where "k = bx - 60"
    have bk: "bx = 60 + k" "bx - 1 = 59 + k" using True unfolding k_def by simp_all
    have Xa: "X = a" unfolding X_def e by simp
    have Yk: "Y = 10 ^ 18 * 2 ^ k" unfolding Y_def e k_def ..
    have k0: "(0::int) < 2 ^ k" by simp
    have lo: "(2::int) ^ 59 * 2 ^ k \<le> Y" unfolding Yk using k0 by (intro mult_right_mono) simp_all
    have hi: "Y < 2 ^ 60 * 2 ^ k" unfolding Yk using k0 by (intro mult_strict_right_mono) simp_all
    have a1: "2 ^ 59 * 2 ^ k \<le> a" using bnd(1) unfolding bk by (simp add: power_add)
    have a2: "a < 2 ^ 60 * 2 ^ k" using bnd(2) unfolding bk(1) by (simp add: power_add)
    show ?thesis unfolding Xa using lo hi a1 a2 by simp
  next
    case False
    then have e: "nat e0 = 0" "nat (- e0) = 60 - bx" unfolding e0_def by simp_all
    define k where "k = 60 - bx"
    have Yd: "Y = 10 ^ 18" unfolding Y_def e by simp
    have Xk: "X = a * 2 ^ k" unfolding X_def e k_def ..
    have k0: "(0::int) < 2 ^ k" by simp
    have s60: "(2::int) ^ 60 = 2 ^ bx * 2 ^ k" using False unfolding k_def by (simp flip: power_add)
    have lo: "2 ^ (bx - 1) * 2 ^ k \<le> X" unfolding Xk using bnd(1) k0 by (intro mult_right_mono) simp_all
    have hi: "X < 2 ^ bx * 2 ^ k" unfolding Xk using bnd(2) k0 by (intro mult_strict_right_mono) simp_all
    have h59: "(2::int) ^ 60 = 2 * (2 ^ (bx - 1) * 2 ^ k)" unfolding s60 p2 by simp
    then have m59: "(2::int) ^ (bx - 1) * 2 ^ k = 2 ^ 59" by (simp add: mult.commute)
    have lo': "(2::int) ^ 59 \<le> X" using lo unfolding m59 .
    have hi': "X < 2 ^ 60" using hi unfolding s60 [symmetric] .
    show ?thesis unfolding Yd using lo' hi' by simp
  qed
  have p64: "64 \<le> p" "bx \<le> p" unfolding p_def by simp_all
  have Le: "L = e0 \<or> L = e0 - 1" unfolding L_def by simp
  have s59: "59 \<le> s" using Le p64 unfolding s_def e0_def by auto
  have ns: "nat (- s) = 0" using s59 by simp
  have se: "0 \<le> s + e0" using Le p64 unfolding s_def by auto
  have ex: "nat s + nat e0 = nat (- e0) + nat (s + e0)" using s59 se by linarith
  have key: "(a * 2 ^ nat s) * 2 ^ nat e0 = X * 2 ^ nat (s + e0)"
  proof -
    have "(a * 2 ^ nat s) * 2 ^ nat e0 = a * 2 ^ (nat s + nat e0)" by (simp add: power_add)
    also have "\<dots> = a * 2 ^ (nat (- e0) + nat (s + e0))" unfolding ex ..
    also have "\<dots> = X * 2 ^ nat (s + e0)" unfolding X_def by (simp add: power_add)
    finally show ?thesis .
  qed
  have pp: "(2::int) ^ p = 2 * 2 ^ (p - 1)" using p64 by (cases p) simp_all
  have z: "(0::int) < 2 ^ (p - 1)" by simp
  have both: "2 ^ (p - 1) * Y \<le> X * 2 ^ nat (s + e0) \<and> X * 2 ^ nat (s + e0) \<le> 2 ^ p * Y"
  proof (cases "Y \<le> X")
    case True
    then have "s + e0 = int p - 1" unfolding s_def L_def by simp
    then have n: "nat (s + e0) = p - 1" using p64 by simp
    have "2 ^ (p - 1) * Y \<le> 2 ^ (p - 1) * X" using True z by (intro mult_left_mono) simp_all
    moreover have "2 ^ (p - 1) * X \<le> 2 ^ (p - 1) * (2 * Y)" using XY z by (intro mult_left_mono) simp_all
    ultimately show ?thesis unfolding n pp by (simp add: mult.commute)
  next
    case False
    then have "s + e0 = int p" unfolding s_def L_def by simp
    then have n: "nat (s + e0) = p" by simp
    have "2 ^ (p - 1) * Y \<le> 2 ^ (p - 1) * (2 * X)" using XY z by (intro mult_left_mono) simp_all
    moreover have "2 ^ p * X \<le> 2 ^ p * Y" using False by (intro mult_left_mono) simp_all
    ultimately show ?thesis unfolding n pp by (simp add: mult.commute)
  qed
  have c0: "(0::int) < 2 ^ nat e0" by simp
  have "(2 ^ (p - 1) * 10 ^ 18) * 2 ^ nat e0 \<le> (a * 2 ^ nat s) * 2 ^ nat e0"
    unfolding key using both unfolding Y_def by (simp add: mult.assoc)
  then have lo: "2 ^ (p - 1) * 10 ^ 18 \<le> a * 2 ^ nat s"
    using c0 by (simp only: mult_le_cancel_right_pos)
  have "(a * 2 ^ nat s) * 2 ^ nat e0 \<le> (2 ^ p * 10 ^ 18) * 2 ^ nat e0"
    unfolding key using both unfolding Y_def by (simp add: mult.assoc)
  then have hi: "a * 2 ^ nat s \<le> 2 ^ p * 10 ^ 18"
    using c0 by (simp only: mult_le_cancel_right_pos)
  have d: "(0::int) < 10 ^ 18" by simp
  have m: "mant (weiToEth x) = roundHalfEven (a * 2 ^ nat s) (10 ^ 18)"
    unfolding W ns by simp
  have pr: "prec (weiToEth x) = p" unfolding W by simp
  show ?thesis
    unfolding m pr using roundHalfEven_ge [OF d lo] roundHalfEven_le [OF d hi]
    by (simp add: p_def bx_def a_def)
qed

lemma decDigit_all:
  "\<forall>d \<in> set [0..<10]. lowerDigit d \<in> set ''0123456789'' \<and> digitOf (lowerDigit d) = int d"
  by code_simp

lemma decDigit_vals:
  assumes "d < 10"
  shows "lowerDigit d \<in> decimalDigits \<and> digitOf (lowerDigit d) = int d"
  using decDigit_all assms by (simp add: decimalDigits_def)

lemma natText_10:
  "0 \<le> n \<Longrightarrow> natText 10 n \<noteq> [] \<and> set (natText 10 n) \<subseteq> decimalDigits \<and>
     positional 10 (natText 10 n) = n"
proof (induction "10 :: nat" n rule: natText.induct)
  case (1 n)
  show ?case
  proof (cases "n < 10")
    case True
    with 1(2) have "nat n < 10" by simp
    from decDigit_vals [OF this] 1(2) True show ?thesis
      by (simp add: natText.simps [of 10 n])
  next
    case False
    then have ih: "natText 10 (n div 10) \<noteq> [] \<and> set (natText 10 (n div 10)) \<subseteq> decimalDigits \<and>
        positional 10 (natText 10 (n div 10)) = n div 10"
      using 1 by simp
    have "nat (n mod 10) < 10" by simp
    from decDigit_vals [OF this] have ld: "lowerDigit (nat (n mod 10)) \<in> decimalDigits"
      "digitOf (lowerDigit (nat (n mod 10))) = n mod 10" by auto
    show ?thesis using False ih ld
      by (simp add: natText.simps [of 10 n] positional_append)
  qed
qed

lemma fixedDigits_props:
  "0 \<le> k \<Longrightarrow> length (fixedDigits w k) = w \<and> set (fixedDigits w k) \<subseteq> decimalDigits \<and>
     positional 10 (fixedDigits w k) = k mod 10 ^ w"
proof (induction w arbitrary: k)
  case 0
  then show ?case by simp
next
  case (Suc w)
  from Suc.prems have k10: "0 \<le> k div 10" by simp
  note ih = Suc.IH [OF k10]
  have "nat (k mod 10) < 10" by simp
  from decDigit_vals [OF this] have ld: "lowerDigit (nat (k mod 10)) \<in> decimalDigits"
      "digitOf (lowerDigit (nat (k mod 10))) = k mod 10" by auto
  have m: "k mod (10 * 10 ^ w) = 10 * (k div 10 mod 10 ^ w) + k mod 10"
    by (rule zmod_zmult2_eq) simp
  show ?case using ih ld by (simp add: positional_append m)
qed

lemma weiToEth_micro:
  "\<exists>N. 0 \<le> N \<and> \<bar>N * 10 ^ 12 - \<bar>x\<bar>\<bar> \<le> 5 * 10 ^ 11 \<and>
     Text_f (weiToEth x) 6 =
       (if x < 0 then ''-'' else []) @ natText 10 (N div 10 ^ 6) @ ''.'' @
       fixedDigits 6 (N mod 10 ^ 6)"
proof (cases "x = 0")
  case True
  have "Text_f (weiToEth 0) 6 = natText 10 (0 div 10 ^ 6) @ ''.'' @ fixedDigits 6 (0 mod 10 ^ 6)"
    unfolding weiToEth_zero by (simp add: Text_f_def roundHalfEven_def)
  with True show ?thesis by (intro exI [of _ 0]) simp
next
  case False
  from weiToEth_nonzero [OF False] obtain s p where s: "59 \<le> s"
    and w: "weiToEth x = \<lparr>prec = p, neg = (x < 0),
              mant = roundHalfEven (\<bar>x\<bar> * 2 ^ s) (10 ^ 18), exp2 = - int s\<rparr>" by blast
  define N where "N = roundHalfEven (roundHalfEven (\<bar>x\<bar> * 2 ^ s) (10 ^ 18) * 10 ^ 6) (2 ^ s)"
  have a: "0 \<le> \<bar>x\<bar>" by simp
  have n: "0 \<le> N \<and> \<bar>N * 10 ^ 12 - \<bar>x\<bar>\<bar> \<le> 5 * 10 ^ 11"
    unfolding N_def by (rule nearest_micro [OF a s])
  have "Text_f (weiToEth x) 6 =
       (if x < 0 then ''-'' else []) @ natText 10 (N div 10 ^ 6) @ ''.'' @
       fixedDigits 6 (N mod 10 ^ 6)"
    unfolding w N_def Text_f_def Let_def by simp
  with n show ?thesis by blast
qed

lemma weiToEth_six_places:
  "\<exists>N ip fp. Text_f (weiToEth x) 6 = (if x < 0 then ''-'' else []) @ ip @ ''.'' @ fp \<and>
     ip \<noteq> [] \<and> length fp = 6 \<and> set ip \<subseteq> decimalDigits \<and> set fp \<subseteq> decimalDigits \<and>
     positional 10 (ip @ fp) = N \<and> \<bar>N * 10 ^ 12 - \<bar>x\<bar>\<bar> \<le> 5 * 10 ^ 11"
proof -
  from weiToEth_micro [of x] obtain N where N: "0 \<le> N" "\<bar>N * 10 ^ 12 - \<bar>x\<bar>\<bar> \<le> 5 * 10 ^ 11"
     "Text_f (weiToEth x) 6 =
       (if x < 0 then ''-'' else []) @ natText 10 (N div 10 ^ 6) @ ''.'' @
       fixedDigits 6 (N mod 10 ^ 6)" by blast
  have q: "0 \<le> N div 10 ^ 6" using N(1) by (simp add: pos_imp_zdiv_nonneg_iff)
  have r: "0 \<le> N mod 10 ^ 6" by simp
  note ip = natText_10 [OF q]
  note fp = fixedDigits_props [OF r, of 6]
  have "positional 10 (natText 10 (N div 10 ^ 6) @ fixedDigits 6 (N mod 10 ^ 6)) = N"
    using ip fp by (simp add: positional_append)
  with N(2,3) ip fp show ?thesis by blast
qed

lemma nearestEven_roundHalfEven:
  assumes "0 < b"
  shows "nearestEven (roundHalfEven a b) a b"
proof -
  define q r where "q = a div b" and "r = a mod b"
  have a: "a = q * b + r" by (simp add: q_def r_def)
  have r: "0 \<le> r" "r < b" using assms by (simp_all add: r_def)
  have up: "(q + 1) * b - a = b - r" unfolding a by (simp add: algebra_simps)
  have dn: "q * b - a = - r" unfolding a by simp
  consider (lo) "2 * r < b" | (hi) "b < 2 * r" | (tie) "2 * r = b" by linarith
  then show ?thesis
  proof cases
    case lo
    then have "roundHalfEven a b = q"
      unfolding roundHalfEven_def Let_def q_def [symmetric] r_def [symmetric] by simp
    with lo r dn show ?thesis unfolding nearestEven_def by simp
  next
    case hi
    then have "roundHalfEven a b = q + 1"
      unfolding roundHalfEven_def Let_def q_def [symmetric] r_def [symmetric] by simp
    with hi r up show ?thesis unfolding nearestEven_def by simp
  next
    case tie
    show ?thesis
    proof (cases "even q")
      case True
      with tie have "roundHalfEven a b = q"
        unfolding roundHalfEven_def Let_def q_def [symmetric] r_def [symmetric] by simp
      with tie r dn True show ?thesis unfolding nearestEven_def by simp
    next
      case False
      with tie have "roundHalfEven a b = q + 1"
        unfolding roundHalfEven_def Let_def q_def [symmetric] r_def [symmetric] by simp
      with tie r up False show ?thesis unfolding nearestEven_def by simp
    qed
  qed
qed

lemma nearestEven_unique:
  assumes "0 < b" and "nearestEven r a b" and "nearestEven r' a b"
  shows "r = r'"
proof (rule ccontr)
  assume ne: "r \<noteq> r'"
  define d where "d = r - r'"
  have d1: "1 \<le> \<bar>d\<bar>" using ne unfolding d_def by simp
  have "\<bar>d\<bar> * b = \<bar>d * b\<bar>" using assms(1) by (simp add: abs_mult)
  also have "d * b = (r * b - a) - (r' * b - a)" unfolding d_def by (simp add: algebra_simps)
  also have "\<bar>(r * b - a) - (r' * b - a)\<bar> \<le> \<bar>r * b - a\<bar> + \<bar>r' * b - a\<bar>"
    by (rule abs_triangle_ineq4)
  finally have t: "\<bar>d\<bar> * b \<le> \<bar>r * b - a\<bar> + \<bar>r' * b - a\<bar>" .
  have le: "2 * \<bar>r * b - a\<bar> \<le> b" "2 * \<bar>r' * b - a\<bar> \<le> b"
    using assms(2,3) unfolding nearestEven_def by auto
  have bz: "b \<le> \<bar>d\<bar> * b" using d1 assms(1) by (simp add: mult_le_cancel_right1)
  define u v z where "u = \<bar>r * b - a\<bar>" and "v = \<bar>r' * b - a\<bar>" and "z = \<bar>d\<bar> * b"
  have "z \<le> u + v" "2 * u \<le> b" "2 * v \<le> b" "b \<le> z"
    using t le bz unfolding u_def v_def z_def by simp_all
  then have "2 * u = b \<and> 2 * v = b \<and> z \<le> b" by linarith
  then have eq: "2 * \<bar>r * b - a\<bar> = b" "2 * \<bar>r' * b - a\<bar> = b" "\<bar>d\<bar> * b \<le> b"
    unfolding u_def v_def z_def by simp_all
  then have ev: "even r" "even r'" using assms(2,3) unfolding nearestEven_def by auto
  from eq(3) assms(1) have "\<bar>d\<bar> \<le> 1" by (simp add: mult_le_cancel_right1)
  with d1 have "\<bar>d\<bar> = 1" by simp
  then have "odd d" by (auto simp: abs_if split: if_splits)
  with ev show False unfolding d_def by simp
qed

lemma tie_direction:
  fixes N K M a :: int
  assumes "0 < K" and "2 * \<bar>N * K - M\<bar> \<le> K" and "\<bar>N * 10 ^ 12 - a\<bar> \<le> 5 * 10 ^ 11"
    and "a mod 10 ^ 12 = 5 * 10 ^ 11"
  shows "(a * K < M * 10 ^ 12 \<longrightarrow> N = a div 10 ^ 12 + 1) \<and>
         (M * 10 ^ 12 < a * K \<longrightarrow> N = a div 10 ^ 12)"
proof -
  define q where "q = a div 10 ^ 12"
  define P where "P = q * K"
  have a: "a = q * 10 ^ 12 + 5 * 10 ^ 11"
    unfolding q_def using assms(4) by (metis mult.commute mult_div_mod_eq)
  have Nq: "N = q \<or> N = q + 1" using assms(3) unfolding a by simp linarith
  have aK: "a * K = 1000000000000 * P + 500000000000 * K"
    unfolding a P_def by (simp add: algebra_simps)
  show ?thesis
  proof (intro conjI impI)
    assume h: "a * K < M * 10 ^ 12"
    then have h': "a * K < 1000000000000 * M" by simp
    show "N = a div 10 ^ 12 + 1"
    proof (rule ccontr)
      assume "N \<noteq> a div 10 ^ 12 + 1"
      with Nq have n: "N = q" unfolding q_def by simp
      from assms(2) have "2 * \<bar>P - M\<bar> \<le> K" unfolding n P_def .
      then have t: "2 * (M - P) \<le> K" by arith
      from h' have "1000000000000 * P + 500000000000 * K < 1000000000000 * M" unfolding aK .
      with t show False by simp
    qed
  next
    assume h: "M * 10 ^ 12 < a * K"
    then have h': "1000000000000 * M < a * K" by simp
    show "N = a div 10 ^ 12"
    proof (rule ccontr)
      assume "N \<noteq> a div 10 ^ 12"
      with Nq have n: "N = q + 1" unfolding q_def by simp
      have e: "(q + 1) * K = P + K" unfolding P_def by (simp add: algebra_simps)
      from assms(2) have "2 * \<bar>P + K - M\<bar> \<le> K" unfolding n e .
      then have t: "2 * (P + K - M) \<le> K" by arith
      from h' have "1000000000000 * M < 1000000000000 * P + 500000000000 * K" unfolding aK .
      with t show False by simp
    qed
  qed
qed

lemma nearestEven_exact:
  fixes N K M a :: int
  assumes "0 < K" and "nearestEven N M K" and "M * 10 ^ 12 = a * K"
  shows "nearestEven N a (10 ^ 12)"
proof -
  define w where "w = N * K - M"
  define c :: int where "c = 10 ^ 12"
  have c0: "0 \<le> c" unfolding c_def by simp
  have e: "(N * 10 ^ 12 - a) * K = c * w"
    unfolding w_def c_def using assms(3) by (simp add: algebra_simps)
  have "\<bar>N * 10 ^ 12 - a\<bar> * K = \<bar>(N * 10 ^ 12 - a) * K\<bar>" using assms(1) by (simp add: abs_mult)
  also have "\<dots> = c * \<bar>w\<bar>" unfolding e using c0 by (simp add: abs_mult)
  finally have s: "\<bar>N * 10 ^ 12 - a\<bar> * K = 10 ^ 12 * \<bar>N * K - M\<bar>" unfolding w_def c_def .
  define u v where "u = \<bar>N * 10 ^ 12 - a\<bar>" and "v = \<bar>N * K - M\<bar>"
  have uv: "u * K = 10 ^ 12 * v" using s unfolding u_def v_def .
  have lt: "(2 * v < K) = (2 * u < 10 ^ 12)"
  proof -
    have "(2 * u < 10 ^ 12) = ((2 * u) * K < 10 ^ 12 * K)"
      using assms(1) by (simp only: mult_less_cancel_right_pos)
    also have "(2 * u) * K = 10 ^ 12 * (2 * v)" using uv by (simp add: mult.commute)
    also have "(10 ^ 12 * (2 * v) < 10 ^ 12 * K) = (2 * v < K)" by simp
    finally show ?thesis by simp
  qed
  have eq: "(2 * v = K) = (2 * u = 10 ^ 12)"
  proof -
    have "(2 * u = 10 ^ 12) = ((2 * u) * K = 10 ^ 12 * K)"
      using assms(1) by simp
    also have "(2 * u) * K = 10 ^ 12 * (2 * v)" using uv by (simp add: mult.commute)
    also have "(10 ^ 12 * (2 * v) = 10 ^ 12 * K) = (2 * v = K)" by simp
    finally show ?thesis by simp
  qed
  show ?thesis
    using assms(2) lt eq unfolding nearestEven_def u_def v_def by simp
qed

lemma mod_half:
  fixes k :: int
  shows "(k * 10 ^ 12 + 5 * 10 ^ 11) mod 10 ^ 12 = 5 * 10 ^ 11"
proof -
  define c h :: int where "c = 10 ^ 12" and "h = 5 * 10 ^ 11"
  have "(k * c + h) mod c = h mod c" by (rule mod_mult_self3)
  also have "h mod c = h" unfolding c_def h_def by simp
  finally show ?thesis unfolding c_def h_def .
qed

lemma near_not_tie:
  fixes N a :: int
  assumes "\<bar>N * 10 ^ 12 - a\<bar> \<le> 5 * 10 ^ 11" and "a mod 10 ^ 12 \<noteq> 5 * 10 ^ 11"
  shows "nearestEven N a (10 ^ 12)"
proof -
  have "\<bar>N * 10 ^ 12 - a\<bar> \<noteq> 5 * 10 ^ 11"
  proof
    assume "\<bar>N * 10 ^ 12 - a\<bar> = 5 * 10 ^ 11"
    then have "a = N * 10 ^ 12 + 5 * 10 ^ 11 \<or> a = (N - 1) * 10 ^ 12 + 5 * 10 ^ 11"
      by (simp add: abs_if algebra_simps split: if_splits)
    then have "a mod 10 ^ 12 = 5 * 10 ^ 11" using mod_half by (elim disjE) (simp_all only:)
    with assms(2) show False by simp
  qed
  with assms(1) show ?thesis unfolding nearestEven_def by simp
qed


lemma weiToEth_text_parts:
  "\<exists>N m s. mant (weiToEth x) = m \<and> exp2 (weiToEth x) = - int s \<and> 0 \<le> N \<and>
     nearestEven m (\<bar>x\<bar> * 2 ^ s) (10 ^ 18) \<and> nearestEven N (m * 10 ^ 6) (2 ^ s) \<and>
     \<bar>N * 10 ^ 12 - \<bar>x\<bar>\<bar> \<le> 5 * 10 ^ 11 \<and>
     Text_f (weiToEth x) 6 =
       (if x < 0 then ''-'' else []) @ natText 10 (N div 10 ^ 6) @ ''.'' @
       fixedDigits 6 (N mod 10 ^ 6)"
proof (cases "x = 0")
  case True
  have t: "Text_f (weiToEth 0) 6 = natText 10 (0 div 10 ^ 6) @ ''.'' @ fixedDigits 6 (0 mod 10 ^ 6)"
    unfolding weiToEth_zero by (simp add: Text_f_def roundHalfEven_def)
  have m: "mant (weiToEth 0) = 0" "exp2 (weiToEth 0) = - int 0"
    unfolding weiToEth_zero by simp_all
  have n: "nearestEven 0 (\<bar>0\<bar> * 2 ^ 0) (10 ^ 18)" "nearestEven 0 (0 * 10 ^ 6) (2 ^ 0)"
    unfolding nearestEven_def by simp_all
  show ?thesis
    unfolding True using t m n
    by (intro exI [of _ 0] exI [of _ "0::nat"]) simp
next
  case False
  from weiToEth_nonzero [OF False] obtain s p where s: "59 \<le> s"
    and w: "weiToEth x = \<lparr>prec = p, neg = (x < 0),
              mant = roundHalfEven (\<bar>x\<bar> * 2 ^ s) (10 ^ 18), exp2 = - int s\<rparr>" by blast
  define m where "m = roundHalfEven (\<bar>x\<bar> * 2 ^ s) (10 ^ 18)"
  define N where "N = roundHalfEven (m * 10 ^ 6) (2 ^ s)"
  have a: "0 \<le> \<bar>x\<bar>" by simp
  have n: "0 \<le> N \<and> \<bar>N * 10 ^ 12 - \<bar>x\<bar>\<bar> \<le> 5 * 10 ^ 11"
    unfolding N_def m_def by (rule nearest_micro [OF a s])
  have ne1: "nearestEven m (\<bar>x\<bar> * 2 ^ s) (10 ^ 18)"
    unfolding m_def by (rule nearestEven_roundHalfEven) simp
  have ne2: "nearestEven N (m * 10 ^ 6) (2 ^ s)"
    unfolding N_def by (rule nearestEven_roundHalfEven) simp
  have t: "Text_f (weiToEth x) 6 =
       (if x < 0 then ''-'' else []) @ natText 10 (N div 10 ^ 6) @ ''.'' @
       fixedDigits 6 (N mod 10 ^ 6)"
    unfolding w N_def m_def Text_f_def Let_def by simp
  have mm: "mant (weiToEth x) = m" "exp2 (weiToEth x) = - int s"
    unfolding w m_def by simp_all
  from mm n ne1 ne2 t show ?thesis by blast
qed

text \<open>
  C3, as the code has it. The quotient is a binary floating-point number m / 2^s: for a
  non-zero x its mantissa m has the precision p = max(64, bit length of x) in bits
  (2^(p-1) \<le> m \<le> 2^p) and is the integer nearest to \<bar>x\<bar> * 2^s / 10^18, a tie to the
  even one. The text is an optional minus sign, a non-empty run of decimal digits, the
  point and exactly six decimal digits; read as a count N of millionths, N is the integer
  nearest to m * 10^6 / 2^s, a tie to the even one, and it is within half a millionth of
  \<bar>x\<bar> / 10^18. When \<bar>x\<bar> / 10^18 is no tie between two six-place decimals, N is the
  correctly rounded decimal quotient. At a tie N is the upper neighbour when the binary
  quotient lies above \<bar>x\<bar> / 10^18, the lower one when it lies below, and the even one
  when the binary quotient is exact. For 10^18 the text is "1.000000"; the exact tie
  2^-7 ether prints as "0.007812".
\<close>

theorem weiToEth_text_binary:
  "(\<exists>N ip fp m s.
      Text_f (weiToEth x) 6 = (if x < 0 then ''-'' else []) @ ip @ ''.'' @ fp \<and>
      ip \<noteq> [] \<and> length fp = 6 \<and> set ip \<subseteq> decimalDigits \<and> set fp \<subseteq> decimalDigits \<and>
      positional 10 (ip @ fp) = N \<and>
      mant (weiToEth x) = m \<and> exp2 (weiToEth x) = - int s \<and>
      nearestEven m (\<bar>x\<bar> * 2 ^ s) (10 ^ 18) \<and>
      (x \<noteq> 0 \<longrightarrow> prec (weiToEth x) = max (BitLen \<bar>x\<bar>) 64 \<and>
                2 ^ (prec (weiToEth x) - 1) \<le> m \<and> m \<le> 2 ^ prec (weiToEth x)) \<and>
      nearestEven N (m * 10 ^ 6) (2 ^ s) \<and>
      \<bar>N * 10 ^ 12 - \<bar>x\<bar>\<bar> \<le> 5 * 10 ^ 11 \<and>
      (\<bar>x\<bar> mod 10 ^ 12 \<noteq> 5 * 10 ^ 11 \<longrightarrow> nearestEven N \<bar>x\<bar> (10 ^ 12)) \<and>
      (\<bar>x\<bar> mod 10 ^ 12 = 5 * 10 ^ 11 \<longrightarrow>
         (\<bar>x\<bar> * 2 ^ s < m * 10 ^ 18 \<longrightarrow> N = \<bar>x\<bar> div 10 ^ 12 + 1) \<and>
         (m * 10 ^ 18 < \<bar>x\<bar> * 2 ^ s \<longrightarrow> N = \<bar>x\<bar> div 10 ^ 12) \<and>
         (m * 10 ^ 18 = \<bar>x\<bar> * 2 ^ s \<longrightarrow> nearestEven N \<bar>x\<bar> (10 ^ 12)))) \<and>
   Text_f (weiToEth (10 ^ 18)) 6 = ''1.000000'' \<and>
   Text_f (weiToEth (78125 * 10 ^ 11)) 6 = ''0.007812''"
proof (intro conjI)
  from weiToEth_text_parts [of x] obtain N m s where
    mm: "mant (weiToEth x) = m" "exp2 (weiToEth x) = - int s" and N0: "0 \<le> N" and
    ne1: "nearestEven m (\<bar>x\<bar> * 2 ^ s) (10 ^ 18)" and
    ne2: "nearestEven N (m * 10 ^ 6) (2 ^ s)" and
    near: "\<bar>N * 10 ^ 12 - \<bar>x\<bar>\<bar> \<le> 5 * 10 ^ 11" and
    t: "Text_f (weiToEth x) 6 =
       (if x < 0 then ''-'' else []) @ natText 10 (N div 10 ^ 6) @ ''.'' @
       fixedDigits 6 (N mod 10 ^ 6)" by blast
  define ip fp where "ip = natText 10 (N div 10 ^ 6)" and "fp = fixedDigits 6 (N mod 10 ^ 6)"
  have q: "0 \<le> N div 10 ^ 6" using N0 by (simp add: pos_imp_zdiv_nonneg_iff)
  have r: "0 \<le> N mod 10 ^ 6" by simp
  have ipp: "ip \<noteq> []" "set ip \<subseteq> decimalDigits" "positional 10 ip = N div 10 ^ 6"
    unfolding ip_def using natText_10 [OF q] by simp_all
  have fpp: "length fp = 6" "set fp \<subseteq> decimalDigits" "positional 10 fp = N mod 10 ^ 6"
    unfolding fp_def using fixedDigits_props [OF r, of 6] by simp_all
  have pos: "positional 10 (ip @ fp) = N"
    using ipp fpp by (simp add: positional_append)
  have shape: "Text_f (weiToEth x) 6 = (if x < 0 then ''-'' else []) @ ip @ ''.'' @ fp"
    unfolding t ip_def fp_def ..
  have bits: "x \<noteq> 0 \<longrightarrow> prec (weiToEth x) = max (BitLen \<bar>x\<bar>) 64 \<and>
                2 ^ (prec (weiToEth x) - 1) \<le> m \<and> m \<le> 2 ^ prec (weiToEth x)"
  proof
    assume "x \<noteq> 0"
    from weiToEth_mantissa [OF this] show "prec (weiToEth x) = max (BitLen \<bar>x\<bar>) 64 \<and>
                2 ^ (prec (weiToEth x) - 1) \<le> m \<and> m \<le> 2 ^ prec (weiToEth x)"
      unfolding mm(1) by blast
  qed
  have K: "(0::int) < 2 ^ s" by simp
  have le: "2 * \<bar>N * 2 ^ s - m * 10 ^ 6\<bar> \<le> 2 ^ s"
    using ne2 unfolding nearestEven_def by auto
  have M: "m * 10 ^ 6 * 10 ^ 12 = m * 10 ^ 18" by simp
  have nt: "\<bar>x\<bar> mod 10 ^ 12 \<noteq> 5 * 10 ^ 11 \<longrightarrow> nearestEven N \<bar>x\<bar> (10 ^ 12)"
    using near_not_tie [OF near] by blast
  have tie: "\<bar>x\<bar> mod 10 ^ 12 = 5 * 10 ^ 11 \<longrightarrow>
         (\<bar>x\<bar> * 2 ^ s < m * 10 ^ 18 \<longrightarrow> N = \<bar>x\<bar> div 10 ^ 12 + 1) \<and>
         (m * 10 ^ 18 < \<bar>x\<bar> * 2 ^ s \<longrightarrow> N = \<bar>x\<bar> div 10 ^ 12) \<and>
         (m * 10 ^ 18 = \<bar>x\<bar> * 2 ^ s \<longrightarrow> nearestEven N \<bar>x\<bar> (10 ^ 12))"
  proof (intro impI conjI)
    assume h: "\<bar>x\<bar> mod 10 ^ 12 = 5 * 10 ^ 11"
    note d = tie_direction [OF K le near h, unfolded M]
    show "N = \<bar>x\<bar> div 10 ^ 12 + 1" if "\<bar>x\<bar> * 2 ^ s < m * 10 ^ 18" using d that by blast
    show "N = \<bar>x\<bar> div 10 ^ 12" if "m * 10 ^ 18 < \<bar>x\<bar> * 2 ^ s" using d that by blast
    show "nearestEven N \<bar>x\<bar> (10 ^ 12)" if e: "m * 10 ^ 18 = \<bar>x\<bar> * 2 ^ s"
      by (rule nearestEven_exact [OF K ne2]) (simp only: M e)
  qed
  from shape ipp fpp pos mm ne1 bits ne2 near nt tie
  show "\<exists>N ip fp m s.
      Text_f (weiToEth x) 6 = (if x < 0 then ''-'' else []) @ ip @ ''.'' @ fp \<and>
      ip \<noteq> [] \<and> length fp = 6 \<and> set ip \<subseteq> decimalDigits \<and> set fp \<subseteq> decimalDigits \<and>
      positional 10 (ip @ fp) = N \<and>
      mant (weiToEth x) = m \<and> exp2 (weiToEth x) = - int s \<and>
      nearestEven m (\<bar>x\<bar> * 2 ^ s) (10 ^ 18) \<and>
      (x \<noteq> 0 \<longrightarrow> prec (weiToEth x) = max (BitLen \<bar>x\<bar>) 64 \<and>
                2 ^ (prec (weiToEth x) - 1) \<le> m \<and> m \<le> 2 ^ prec (weiToEth x)) \<and>
      nearestEven N (m * 10 ^ 6) (2 ^ s) \<and>
      \<bar>N * 10 ^ 12 - \<bar>x\<bar>\<bar> \<le> 5 * 10 ^ 11 \<and>
      (\<bar>x\<bar> mod 10 ^ 12 \<noteq> 5 * 10 ^ 11 \<longrightarrow> nearestEven N \<bar>x\<bar> (10 ^ 12)) \<and>
      (\<bar>x\<bar> mod 10 ^ 12 = 5 * 10 ^ 11 \<longrightarrow>
         (\<bar>x\<bar> * 2 ^ s < m * 10 ^ 18 \<longrightarrow> N = \<bar>x\<bar> div 10 ^ 12 + 1) \<and>
         (m * 10 ^ 18 < \<bar>x\<bar> * 2 ^ s \<longrightarrow> N = \<bar>x\<bar> div 10 ^ 12) \<and>
         (m * 10 ^ 18 = \<bar>x\<bar> * 2 ^ s \<longrightarrow> nearestEven N \<bar>x\<bar> (10 ^ 12)))"
    by blast
next
  show "Text_f (weiToEth (10 ^ 18)) 6 = ''1.000000''" by code_simp
  show "Text_f (weiToEth (78125 * 10 ^ 11)) 6 = ''0.007812''" by code_simp
qed

lemma half_millionth_float:
  "exp2 (weiToEth 500000000000) = - int 84"
  "\<bar>500000000000\<bar> * 2 ^ 84 < mant (weiToEth 500000000000) * (10 :: int) ^ 18"
  "\<bar>500000000000 :: int\<bar> mod 10 ^ 12 = 5 * 10 ^ 11"
  "\<bar>500000000000 :: int\<bar> div 10 ^ 12 + 1 = 1"
  by code_simp+

theorem weiToEth_text_binary_witness:
  "\<bar>500000000000 :: int\<bar> mod 10 ^ 12 = 5 * 10 ^ 11 \<and>
   exp2 (weiToEth 500000000000) = - int 84 \<and>
   \<bar>500000000000\<bar> * 2 ^ 84 < mant (weiToEth 500000000000) * (10 :: int) ^ 18 \<and>
   (\<exists>ip fp. Text_f (weiToEth 500000000000) 6 = ip @ ''.'' @ fp \<and> length fp = 6 \<and>
      positional 10 (ip @ fp) = 1)"
proof -
  from weiToEth_text_binary [of 500000000000] obtain N ip fp m s where
    t: "Text_f (weiToEth 500000000000) 6 = ip @ ''.'' @ fp" "length fp = 6"
       "positional 10 (ip @ fp) = N" and
    m: "mant (weiToEth 500000000000) = m" "exp2 (weiToEth 500000000000) = - int s" and
    tie: "\<bar>500000000000 :: int\<bar> mod 10 ^ 12 = 5 * 10 ^ 11 \<longrightarrow>
         (\<bar>500000000000\<bar> * 2 ^ s < m * 10 ^ 18 \<longrightarrow> N = \<bar>500000000000\<bar> div 10 ^ 12 + 1)"
    by auto
  from m(2) half_millionth_float(1) have s: "s = 84" by simp
  from tie half_millionth_float(2,3) m(1) have "N = \<bar>500000000000\<bar> div 10 ^ 12 + 1"
    unfolding s by blast
  then have "N = 1" unfolding half_millionth_float(4) .
  with t half_millionth_float show ?thesis by blast
qed

text \<open>
  C3 fails as stated: the quotient is taken in binary floating point, and an exact decimal
  tie falls to the side on which the 64-bit quotient lies. The ties 0.5, 1.5, 2.5 and 3.5
  millionths print as 1, 1, 2 and 4 millionths, where decimal rounding of ties to even
  gives 0 and 2 for the first two, and no fixed treatment of ties gives all four.
\<close>

theorem weiToEth_ties_follow_binary_quotient:
  "Text_f (weiToEth (5 * 10 ^ 11)) 6 = ''0.000001'' \<and>
   roundHalfEven (5 * 10 ^ 11) (10 ^ 12) = 0 \<and>
   Text_f (weiToEth (15 * 10 ^ 11)) 6 = ''0.000001'' \<and>
   roundHalfEven (15 * 10 ^ 11) (10 ^ 12) = 2 \<and>
   Text_f (weiToEth (25 * 10 ^ 11)) 6 = ''0.000002'' \<and>
   Text_f (weiToEth (35 * 10 ^ 11)) 6 = ''0.000004''"
  by code_simp

section \<open>The rules on the node's answers\<close>

lemma main_answered:
  assumes "answered w bnRaw blRaw bpRaw nnRaw npRaw codeRaw"
  shows "main w =
    Inr \<lparr>latest = hexToBig (inner bnRaw),
         balLatest = hexToBig (inner blRaw),
         balPast = (if 100 < hexToBig (inner bnRaw) then hexToBig (inner bpRaw)
                    else hexToBig (inner blRaw)),
         pastBlock = (if 100 < hexToBig (inner bnRaw) then hexToBig (inner bnRaw) - 100
                      else hexToBig (inner bnRaw)),
         nonceNow = hexToBig (inner nnRaw),
         noncePast = hexToBig (inner npRaw),
         codeNowRaw = codeRaw,
         out = snd (heuristics w (Getenv w ''RPC_URL'') (Getenv w ''ADDRESS'')
                  (hexToBig (inner bnRaw)) (hexToBig (inner blRaw))
                  (if 100 < hexToBig (inner bnRaw) then hexToBig (inner bpRaw)
                   else hexToBig (inner blRaw))
                  (hexToBig (inner nnRaw)) (hexToBig (inner npRaw)))\<rparr>"
proof (cases "100 < hexToBig (inner bnRaw)")
  case True
  with assms show ?thesis
    unfolding answered_def main_def Let_def slice_quotes
    by (auto simp: and_then_def inner_def case_prod_beta heuristics_fst)
next
  case False
  with assms show ?thesis
    unfolding answered_def main_def Let_def slice_quotes
    by (auto simp: and_then_def inner_def case_prod_beta heuristics_fst)
qed

lemma answered_drained:
  "answered drainedWorld (quoted ''0x3e8'') (quoted ''0x14d1120d7b160000'')
     (quoted ''0x1bc16d674ec80000'') (quoted ''0x1a'') (quoted ''0x5'') (quoted ''0x6080'')"
  by code_simp

lemma answered_busyContract:
  "answered busyContractWorld (quoted ''0x3e8'') (quoted ''0xde0b6b3a7640000'')
     (quoted ''0xde0b6b3a7640000'') (quoted ''0x1a'') (quoted ''0x5'') (quoted ''0x6080'')"
  by code_simp

lemma inner_quoted: "inner (quoted s) = s"
  by (simp add: inner_def quoted_def)

lemma main_reads:
  assumes "answered w bnRaw blRaw bpRaw nnRaw npRaw codeRaw"
  shows "\<exists>fr. main w = Inr fr \<and>
         latest fr = hexToBig (inner bnRaw) \<and>
         balLatest fr = hexToBig (inner blRaw) \<and>
         balPast fr = (if 100 < latest fr then hexToBig (inner bpRaw) else balLatest fr) \<and>
         pastBlock fr = (if 100 < latest fr then latest fr - 100 else latest fr) \<and>
         nonceNow fr = hexToBig (inner nnRaw) \<and>
         noncePast fr = hexToBig (inner npRaw) \<and>
         codeNowRaw fr = codeRaw"
  unfolding main_answered [OF assms] by simp

lemma block_1000:
  "hexToBig (inner (quoted ''0x3e8'')) = 1000" "Sprintf_0x 900 = ''0x384''"
  by code_simp+

lemma answered_pairWorld:
  "answered (pairWorld bl bp nn np) (quoted ''0x3e8'') (quoted (Sprintf_0x bl))
     (quoted (Sprintf_0x bp)) (quoted (Sprintf_0x nn)) (quoted (Sprintf_0x np)) (quoted ''0x'')"
proof -
  have g: "Getenv (pairWorld bl bp nn np) ''RPC_URL'' = ''http://node''"
    "Getenv (pairWorld bl bp nn np) ''ADDRESS'' = ''0xabc''"
    by (simp_all add: pairWorld_def probeWorld_def)
  have c: "call (pairWorld bl bp nn np) ''http://node'' ''eth_blockNumber'' [] =
             (quoted ''0x3e8'', None)"
    "fst (call (pairWorld bl bp nn np) ''http://node'' ''eth_getBalance'' [''0xabc'', ''latest'']) =
       quoted (Sprintf_0x bl)"
    "fst (call (pairWorld bl bp nn np) ''http://node'' ''eth_getBalance'' [''0xabc'', ''0x384'']) =
       quoted (Sprintf_0x bp)"
    "fst (call (pairWorld bl bp nn np) ''http://node'' ''eth_getTransactionCount''
       [''0xabc'', ''latest'']) = quoted (Sprintf_0x nn)"
    "fst (call (pairWorld bl bp nn np) ''http://node'' ''eth_getTransactionCount''
       [''0xabc'', ''0x384'']) = quoted (Sprintf_0x np)"
    "fst (call (pairWorld bl bp nn np) ''http://node'' ''eth_getCode'' [''0xabc'', ''latest'']) =
       quoted ''0x''"
    by (simp_all add: call_def pairWorld_def probeWorld_def answers_def)
  have l: "\<And>s. 2 \<le> length (quoted s)" by (simp add: quoted_def)
  show ?thesis
    unfolding answered_def Let_def g block_1000 by (simp add: c l block_1000)
qed

lemma run_pairWorld:
  "\<exists>fr. main (pairWorld bl bp nn np) = Inr fr \<and> balLatest fr = bl \<and> balPast fr = bp \<and>
     nonceNow fr = nn \<and> noncePast fr = np \<and> codeNowRaw fr = quoted ''0x''"
proof -
  from main_reads [OF answered_pairWorld [of bl bp nn np]] obtain fr where
    f: "main (pairWorld bl bp nn np) = Inr fr" "latest fr = hexToBig (inner (quoted ''0x3e8''))"
       "balLatest fr = hexToBig (inner (quoted (Sprintf_0x bl)))"
       "balPast fr = (if 100 < latest fr then hexToBig (inner (quoted (Sprintf_0x bp)))
                      else balLatest fr)"
       "nonceNow fr = hexToBig (inner (quoted (Sprintf_0x nn)))"
       "noncePast fr = hexToBig (inner (quoted (Sprintf_0x np)))"
       "codeNowRaw fr = quoted ''0x''"
    by blast
  have l: "100 < latest fr" unfolding f(2) block_1000 by simp
  show ?thesis
    using f l by (intro exI [of _ fr]) (simp add: inner_quoted hexToBig_Sprintf)
qed

text \<open>
  C5. A run whose requests the node answers ends with a report, and the nonces it
  compares are the node's two transaction counts; every pair of integers is such a pair
  of answers, and the run on them scores 25 for activity, with the one reason, exactly when
  their difference exceeds 20. In every run that ends with a report, the activity rule adds 25 to the score
  and one reason to the list exactly when the latest nonce exceeds the reference nonce by
  more than 20: the report holds one activity reason then and none otherwise. A difference
  of 20 adds nothing; a difference of 21 adds the reason for +21 once.
\<close>

theorem activity_spike_rule:
  "(answered w bnRaw blRaw bpRaw nnRaw npRaw codeRaw \<longrightarrow>
      (\<exists>fr. main w = Inr fr \<and>
         latest fr = hexToBig (inner bnRaw) \<and>
         balLatest fr = hexToBig (inner blRaw) \<and>
         balPast fr = (if 100 < latest fr then hexToBig (inner bpRaw) else balLatest fr) \<and>
         pastBlock fr = (if 100 < latest fr then latest fr - 100 else latest fr) \<and>
         nonceNow fr = hexToBig (inner nnRaw) \<and>
         noncePast fr = hexToBig (inner npRaw) \<and>
         codeNowRaw fr = codeRaw)) \<and>
   hexToBig (inner (quoted (Sprintf_0x n))) = n \<and>
   (main w = Inr fr \<longrightarrow>
      Score (out fr) =
           (if 0 < balPast fr - balLatest fr then 35 else 0) +
           (if 20 < nonceNow fr - noncePast fr then 25 else 0) +
           (if 4 < length (codeNowRaw fr) then 10 else 0) \<and>
      filter (\<lambda>r. take 18 r = ''high tx activity: '') (Reasons (out fr)) =
           (if 20 < nonceNow fr - noncePast fr then [''high tx activity: +'' @ intText 10 (nonceNow fr - noncePast fr) @ '' nonce/100 blocks''] else []) \<and>
      (nonceNow fr - noncePast fr = 20 \<longrightarrow>
         filter (\<lambda>r. take 18 r = ''high tx activity: '') (Reasons (out fr)) = []) \<and>
      (nonceNow fr - noncePast fr = 21 \<longrightarrow>
         filter (\<lambda>r. take 18 r = ''high tx activity: '') (Reasons (out fr)) =
           [''high tx activity: +21 nonce/100 blocks''])) \<and>
   (\<exists>fr. main (pairWorld bl bp nn np) = Inr fr \<and> nonceNow fr = nn \<and> noncePast fr = np \<and>
      Score (out fr) = (if bl < bp then 35 else 0) + (if 20 < nn - np then 25 else 0) \<and>
      filter (\<lambda>r. take 18 r = ''high tx activity: '') (Reasons (out fr)) =
        (if 20 < nn - np then [''high tx activity: +'' @ intText 10 (nn - np) @ '' nonce/100 blocks''] else []))"
proof (intro conjI impI)
  show "\<exists>fr. main w = Inr fr \<and>
         latest fr = hexToBig (inner bnRaw) \<and>
         balLatest fr = hexToBig (inner blRaw) \<and>
         balPast fr = (if 100 < latest fr then hexToBig (inner bpRaw) else balLatest fr) \<and>
         pastBlock fr = (if 100 < latest fr then latest fr - 100 else latest fr) \<and>
         nonceNow fr = hexToBig (inner nnRaw) \<and>
         noncePast fr = hexToBig (inner npRaw) \<and>
         codeNowRaw fr = codeRaw"
    if "answered w bnRaw blRaw bpRaw nnRaw npRaw codeRaw"
    using that by (rule main_reads)
  show "hexToBig (inner (quoted (Sprintf_0x n))) = n"
    unfolding inner_quoted by (rule hexToBig_Sprintf)
next
  assume r: "main w = Inr fr"
  have f: "filter (\<lambda>r. take 18 r = ''high tx activity: '') (Reasons (out fr)) =
           (if 20 < nonceNow fr - noncePast fr then [''high tx activity: +'' @ intText 10 (nonceNow fr - noncePast fr) @ '' nonce/100 blocks''] else [])"
    unfolding main_Reasons [OF r] by simp
  show "Score (out fr) =
           (if 0 < balPast fr - balLatest fr then 35 else 0) +
           (if 20 < nonceNow fr - noncePast fr then 25 else 0) +
           (if 4 < length (codeNowRaw fr) then 10 else 0)"
    by (rule main_Score_sum [OF r])
  show "filter (\<lambda>r. take 18 r = ''high tx activity: '') (Reasons (out fr)) =
           (if 20 < nonceNow fr - noncePast fr then [''high tx activity: +'' @ intText 10 (nonceNow fr - noncePast fr) @ '' nonce/100 blocks''] else [])"
    by (rule f)
  show "filter (\<lambda>r. take 18 r = ''high tx activity: '') (Reasons (out fr)) = []"
    if "nonceNow fr - noncePast fr = 20" unfolding f using that by simp
  show "filter (\<lambda>r. take 18 r = ''high tx activity: '') (Reasons (out fr)) =
           [''high tx activity: +21 nonce/100 blocks'']"
    if "nonceNow fr - noncePast fr = 21" unfolding f using that by (simp add: intText_21)
next
  from run_pairWorld [of bl bp nn np] obtain fr' where
    p: "main (pairWorld bl bp nn np) = Inr fr'" "balLatest fr' = bl" "balPast fr' = bp"
       "nonceNow fr' = nn" "noncePast fr' = np" "codeNowRaw fr' = quoted ''0x''"
    by blast
  have c: "\<not> 4 < length (codeNowRaw fr')" unfolding p(6) by (simp add: quoted_def)
  have "Score (out fr') = (if bl < bp then 35 else 0) + (if 20 < nn - np then 25 else 0)"
    using main_Score_sum [OF p(1)] c unfolding p(2-5) by simp
  moreover have "filter (\<lambda>r. take 18 r = ''high tx activity: '') (Reasons (out fr')) =
        (if 20 < nn - np then [''high tx activity: +'' @ intText 10 (nn - np) @ '' nonce/100 blocks''] else [])"
    unfolding main_Reasons [OF p(1)] p(2-5) by simp
  ultimately show "\<exists>fr. main (pairWorld bl bp nn np) = Inr fr \<and> nonceNow fr = nn \<and>
      noncePast fr = np \<and>
      Score (out fr) = (if bl < bp then 35 else 0) + (if 20 < nn - np then 25 else 0) \<and>
      filter (\<lambda>r. take 18 r = ''high tx activity: '') (Reasons (out fr)) =
        (if 20 < nn - np then [''high tx activity: +'' @ intText 10 (nn - np) @ '' nonce/100 blocks''] else [])"
    using p by blast
qed

theorem activity_spike_rule_witness:
  "answered drainedWorld (quoted ''0x3e8'') (quoted ''0x14d1120d7b160000'')
     (quoted ''0x1bc16d674ec80000'') (quoted ''0x1a'') (quoted ''0x5'') (quoted ''0x6080'') \<and>
   main drainedWorld = Inr drainedFrame \<and>
   nonceNow drainedFrame = hexToBig (inner (quoted ''0x1a'')) \<and>
   codeNowRaw drainedFrame = quoted ''0x6080'' \<and>
   nonceNow drainedFrame - noncePast drainedFrame = 21 \<and>
   Score (out drainedFrame) = 35 + 25 + 10 \<and>
   filter (\<lambda>r. take 18 r = ''high tx activity: '') (Reasons (out drainedFrame)) =
     [''high tx activity: +21 nonce/100 blocks'']"
proof -
  note t = activity_spike_rule [where w = drainedWorld and fr = drainedFrame]
  from t [THEN conjunct1, THEN mp, OF answered_drained] obtain fr where
    f: "main drainedWorld = Inr fr" "nonceNow fr = hexToBig (inner (quoted ''0x1a''))"
       "codeNowRaw fr = quoted ''0x6080''"
    by blast
  from f(1) run_drained have e: "fr = drainedFrame" by simp
  note c = t [THEN conjunct2, THEN conjunct2, THEN conjunct1, THEN mp, OF run_drained]
  show ?thesis
    using answered_drained run_drained f(2,3) [unfolded e] c
    by (simp add: drainedFrame_def)
qed

text \<open>
  C6. A run whose requests the node answers ends with a report, and the balances it
  compares are the node's balance at "latest" and its balance at the reference block
  (the latest balance again when the latest block is at most 100); every pair of integers
  is such a pair of answers, and the run on them scores 35 for the drain, with the one
  reason, exactly when the reference balance exceeds the latest. In every run that ends with a report, the balance rule adds 35 to the score
  and one reason to the list exactly when the reference balance exceeds the latest
  balance: the report holds one balance reason then and none otherwise. The reason is
  "balance drop ~", the drained amount in ether with six places, " ETH/100 blocks"; the
  amount is digits, the point and six digits, within half a millionth of the drained wei
  divided by 10^18.
\<close>

theorem balance_drain_rule:
  "(answered w bnRaw blRaw bpRaw nnRaw npRaw codeRaw \<longrightarrow>
      (\<exists>fr. main w = Inr fr \<and>
         latest fr = hexToBig (inner bnRaw) \<and>
         balLatest fr = hexToBig (inner blRaw) \<and>
         balPast fr = (if 100 < latest fr then hexToBig (inner bpRaw) else balLatest fr) \<and>
         pastBlock fr = (if 100 < latest fr then latest fr - 100 else latest fr) \<and>
         nonceNow fr = hexToBig (inner nnRaw) \<and>
         noncePast fr = hexToBig (inner npRaw) \<and>
         codeNowRaw fr = codeRaw)) \<and>
   hexToBig (inner (quoted (Sprintf_0x n))) = n \<and>
   (main w = Inr fr \<longrightarrow>
      Score (out fr) =
           (if balLatest fr < balPast fr then 35 else 0) +
           (if 20 < nonceNow fr - noncePast fr then 25 else 0) +
           (if 4 < length (codeNowRaw fr) then 10 else 0) \<and>
      filter (\<lambda>r. take 14 r = ''balance drop ~'') (Reasons (out fr)) =
           (if balLatest fr < balPast fr then [''balance drop ~'' @ Text_f (weiToEth (balPast fr - balLatest fr)) 6 @ '' ETH/100 blocks''] else []) \<and>
      (balLatest fr < balPast fr \<longrightarrow>
         (\<exists>N ip fp. Text_f (weiToEth (balPast fr - balLatest fr)) 6 = ip @ ''.'' @ fp \<and>
            ip \<noteq> [] \<and> length fp = 6 \<and> set ip \<subseteq> decimalDigits \<and>
            set fp \<subseteq> decimalDigits \<and> positional 10 (ip @ fp) = N \<and>
            \<bar>N * 10 ^ 12 - (balPast fr - balLatest fr)\<bar> \<le> 5 * 10 ^ 11))) \<and>
   (\<exists>fr. main (pairWorld bl bp nn np) = Inr fr \<and> balLatest fr = bl \<and> balPast fr = bp \<and>
      Score (out fr) = (if bl < bp then 35 else 0) + (if 20 < nn - np then 25 else 0) \<and>
      filter (\<lambda>r. take 14 r = ''balance drop ~'') (Reasons (out fr)) =
        (if bl < bp then [''balance drop ~'' @ Text_f (weiToEth (bp - bl)) 6 @ '' ETH/100 blocks''] else []))"
proof (intro conjI impI)
  show "\<exists>fr. main w = Inr fr \<and>
         latest fr = hexToBig (inner bnRaw) \<and>
         balLatest fr = hexToBig (inner blRaw) \<and>
         balPast fr = (if 100 < latest fr then hexToBig (inner bpRaw) else balLatest fr) \<and>
         pastBlock fr = (if 100 < latest fr then latest fr - 100 else latest fr) \<and>
         nonceNow fr = hexToBig (inner nnRaw) \<and>
         noncePast fr = hexToBig (inner npRaw) \<and>
         codeNowRaw fr = codeRaw"
    if "answered w bnRaw blRaw bpRaw nnRaw npRaw codeRaw"
    using that by (rule main_reads)
  show "hexToBig (inner (quoted (Sprintf_0x n))) = n"
    unfolding inner_quoted by (rule hexToBig_Sprintf)
next
  assume r: "main w = Inr fr"
  show "Score (out fr) =
           (if balLatest fr < balPast fr then 35 else 0) +
           (if 20 < nonceNow fr - noncePast fr then 25 else 0) +
           (if 4 < length (codeNowRaw fr) then 10 else 0)"
    using main_Score_sum [OF r] by simp
  show "filter (\<lambda>r. take 14 r = ''balance drop ~'') (Reasons (out fr)) =
           (if balLatest fr < balPast fr then [''balance drop ~'' @ Text_f (weiToEth (balPast fr - balLatest fr)) 6 @ '' ETH/100 blocks''] else [])"
    unfolding main_Reasons [OF r] by simp
  assume d: "balLatest fr < balPast fr"
  from weiToEth_six_places [of "balPast fr - balLatest fr"] d
  show "\<exists>N ip fp. Text_f (weiToEth (balPast fr - balLatest fr)) 6 = ip @ ''.'' @ fp \<and>
            ip \<noteq> [] \<and> length fp = 6 \<and> set ip \<subseteq> decimalDigits \<and>
            set fp \<subseteq> decimalDigits \<and> positional 10 (ip @ fp) = N \<and>
            \<bar>N * 10 ^ 12 - (balPast fr - balLatest fr)\<bar> \<le> 5 * 10 ^ 11"
    by simp
next
  from run_pairWorld [of bl bp nn np] obtain fr' where
    p: "main (pairWorld bl bp nn np) = Inr fr'" "balLatest fr' = bl" "balPast fr' = bp"
       "nonceNow fr' = nn" "noncePast fr' = np" "codeNowRaw fr' = quoted ''0x''"
    by blast
  have c: "\<not> 4 < length (codeNowRaw fr')" unfolding p(6) by (simp add: quoted_def)
  have "Score (out fr') = (if bl < bp then 35 else 0) + (if 20 < nn - np then 25 else 0)"
    using main_Score_sum [OF p(1)] c unfolding p(2-5) by simp
  moreover have "filter (\<lambda>r. take 14 r = ''balance drop ~'') (Reasons (out fr')) =
        (if bl < bp then [''balance drop ~'' @ Text_f (weiToEth (bp - bl)) 6 @ '' ETH/100 blocks''] else [])"
    unfolding main_Reasons [OF p(1)] p(2-5) by simp
  ultimately show "\<exists>fr. main (pairWorld bl bp nn np) = Inr fr \<and> balLatest fr = bl \<and>
      balPast fr = bp \<and>
      Score (out fr) = (if bl < bp then 35 else 0) + (if 20 < nn - np then 25 else 0) \<and>
      filter (\<lambda>r. take 14 r = ''balance drop ~'') (Reasons (out fr)) =
        (if bl < bp then [''balance drop ~'' @ Text_f (weiToEth (bp - bl)) 6 @ '' ETH/100 blocks''] else [])"
    using p by blast
qed

theorem balance_drain_rule_witness:
  "answered drainedWorld (quoted ''0x3e8'') (quoted ''0x14d1120d7b160000'')
     (quoted ''0x1bc16d674ec80000'') (quoted ''0x1a'') (quoted ''0x5'') (quoted ''0x6080'') \<and>
   main drainedWorld = Inr drainedFrame \<and>
   nonceNow drainedFrame = hexToBig (inner (quoted ''0x1a'')) \<and>
   codeNowRaw drainedFrame = quoted ''0x6080'' \<and>
   balLatest drainedFrame < balPast drainedFrame \<and>
   Score (out drainedFrame) = 35 + 25 + 10 \<and>
   filter (\<lambda>r. take 14 r = ''balance drop ~'') (Reasons (out drainedFrame)) =
     [''balance drop ~0.500000 ETH/100 blocks'']"
proof -
  note t = balance_drain_rule [where w = drainedWorld and fr = drainedFrame]
  from t [THEN conjunct1, THEN mp, OF answered_drained] obtain fr where
    f: "main drainedWorld = Inr fr" "nonceNow fr = hexToBig (inner (quoted ''0x1a''))"
       "codeNowRaw fr = quoted ''0x6080''"
    by blast
  from f(1) run_drained have e: "fr = drainedFrame" by simp
  note c = t [THEN conjunct2, THEN conjunct2, THEN conjunct1, THEN mp, OF run_drained]
  show ?thesis
    using answered_drained run_drained f(2,3) [unfolded e] c
    by (simp add: drainedFrame_def)
qed

text \<open>
  C7. A run whose requests the node answers ends with a report whose balances, nonces and
  code are the node's answers. In every run that ends with a report, the risk score is the
  sum of the weights of the rules that fired on them (35 for the balance drain, 25 for the
  activity spike, 10 for code), clamped at 100; it is never negative and never above 100,
  in fact never above 70, which a run reaches. The clamp sends every sum above 100 to
  exactly 100 and leaves the others.
\<close>

theorem riskScore_clamped_sum:
  "(answered w bnRaw blRaw bpRaw nnRaw npRaw codeRaw \<longrightarrow>
      (\<exists>fr. main w = Inr fr \<and>
         latest fr = hexToBig (inner bnRaw) \<and>
         balLatest fr = hexToBig (inner blRaw) \<and>
         balPast fr = (if 100 < latest fr then hexToBig (inner bpRaw) else balLatest fr) \<and>
         pastBlock fr = (if 100 < latest fr then latest fr - 100 else latest fr) \<and>
         nonceNow fr = hexToBig (inner nnRaw) \<and>
         noncePast fr = hexToBig (inner npRaw) \<and>
         codeNowRaw fr = codeRaw)) \<and>
   (main w = Inr fr \<longrightarrow>
      Score (out fr) =
        clamp ((if 0 < balPast fr - balLatest fr then 35 else 0) +
           (if 20 < nonceNow fr - noncePast fr then 25 else 0) +
           (if 4 < length (codeNowRaw fr) then 10 else 0)) \<and>
      0 \<le> Score (out fr) \<and> Score (out fr) \<le> 100 \<and> Score (out fr) \<le> 70) \<and>
   (\<exists>fr'. main drainedWorld = Inr fr' \<and> Score (out fr') = 70) \<and>
   (100 < s \<longrightarrow> clamp s = 100) \<and> (s \<le> 100 \<longrightarrow> clamp s = s)"
proof (intro conjI impI)
  show "\<exists>fr. main w = Inr fr \<and>
         latest fr = hexToBig (inner bnRaw) \<and>
         balLatest fr = hexToBig (inner blRaw) \<and>
         balPast fr = (if 100 < latest fr then hexToBig (inner bpRaw) else balLatest fr) \<and>
         pastBlock fr = (if 100 < latest fr then latest fr - 100 else latest fr) \<and>
         nonceNow fr = hexToBig (inner nnRaw) \<and>
         noncePast fr = hexToBig (inner npRaw) \<and>
         codeNowRaw fr = codeRaw"
    if "answered w bnRaw blRaw bpRaw nnRaw npRaw codeRaw"
    using that by (rule main_reads)
next
  assume r: "main w = Inr fr"
  show "Score (out fr) =
        clamp ((if 0 < balPast fr - balLatest fr then 35 else 0) +
           (if 20 < nonceNow fr - noncePast fr then 25 else 0) +
           (if 4 < length (codeNowRaw fr) then 10 else 0))"
    by (rule main_Score [OF r])
  show "0 \<le> Score (out fr)" "Score (out fr) \<le> 100" "Score (out fr) \<le> 70"
    unfolding main_Score_sum [OF r] by simp_all
next
  have "Score (out drainedFrame) = 70" by (simp add: drainedFrame_def)
  with run_drained show "\<exists>fr'. main drainedWorld = Inr fr' \<and> Score (out fr') = 70" by blast
next
  show "clamp s = 100" if "100 < s" using that by (simp add: clamp_def)
  show "clamp s = s" if "s \<le> 100" using that by (simp add: clamp_def)
qed

theorem riskScore_clamped_sum_witness:
  "answered drainedWorld (quoted ''0x3e8'') (quoted ''0x14d1120d7b160000'')
     (quoted ''0x1bc16d674ec80000'') (quoted ''0x1a'') (quoted ''0x5'') (quoted ''0x6080'') \<and>
   main drainedWorld = Inr drainedFrame \<and>
   nonceNow drainedFrame = hexToBig (inner (quoted ''0x1a'')) \<and>
   codeNowRaw drainedFrame = quoted ''0x6080'' \<and>
   Score (out drainedFrame) = clamp (35 + 25 + 10) \<and>
   Score (out drainedFrame) = 70 \<and> (100 :: int) < 150 \<and> clamp 150 = 100"
proof -
  note t = riskScore_clamped_sum [where w = drainedWorld and fr = drainedFrame and s = 150]
  from t [THEN conjunct1, THEN mp, OF answered_drained] obtain fr where
    f: "main drainedWorld = Inr fr" "nonceNow fr = hexToBig (inner (quoted ''0x1a''))"
       "codeNowRaw fr = quoted ''0x6080''"
    by blast
  from f(1) run_drained have e: "fr = drainedFrame" by simp
  note c = t [THEN conjunct2, THEN conjunct1, THEN mp, OF run_drained]
  show ?thesis
    using answered_drained run_drained f(2,3) [unfolded e] c
    by (simp add: drainedFrame_def quoted_def clamp_def)
qed

text \<open>
  C8. A run whose requests the node answers ends with a report whose balances, nonces and
  code are the node's answers. In every run that ends with a report, each rule that fired
  on them contributes exactly one reason, the reasons stand in the order balance drain,
  activity spike, code presence, and there are at most three. With a nonce difference of
  21, equal balances and code present the list is the activity reason for +21 followed by
  the code reason.
\<close>

theorem reasons_in_rule_order:
  "(answered w bnRaw blRaw bpRaw nnRaw npRaw codeRaw \<longrightarrow>
      (\<exists>fr. main w = Inr fr \<and>
         latest fr = hexToBig (inner bnRaw) \<and>
         balLatest fr = hexToBig (inner blRaw) \<and>
         balPast fr = (if 100 < latest fr then hexToBig (inner bpRaw) else balLatest fr) \<and>
         pastBlock fr = (if 100 < latest fr then latest fr - 100 else latest fr) \<and>
         nonceNow fr = hexToBig (inner nnRaw) \<and>
         noncePast fr = hexToBig (inner npRaw) \<and>
         codeNowRaw fr = codeRaw)) \<and>
   (main w = Inr fr \<longrightarrow>
      Reasons (out fr) =
        (if 0 < balPast fr - balLatest fr then [''balance drop ~'' @ Text_f (weiToEth (balPast fr - balLatest fr)) 6 @ '' ETH/100 blocks''] else []) @
        (if 20 < nonceNow fr - noncePast fr then [''high tx activity: +'' @ intText 10 (nonceNow fr - noncePast fr) @ '' nonce/100 blocks''] else []) @
        (if 4 < length (codeNowRaw fr) then [''address has code (smart wallet or contract)''] else []) \<and>
      length (Reasons (out fr)) \<le> 3 \<and>
      (nonceNow fr - noncePast fr = 21 \<and> balPast fr = balLatest fr \<and>
         4 < length (codeNowRaw fr) \<longrightarrow>
       Reasons (out fr) = [''high tx activity: +21 nonce/100 blocks'',
                           ''address has code (smart wallet or contract)'']))"
proof (intro conjI impI)
  show "\<exists>fr. main w = Inr fr \<and>
         latest fr = hexToBig (inner bnRaw) \<and>
         balLatest fr = hexToBig (inner blRaw) \<and>
         balPast fr = (if 100 < latest fr then hexToBig (inner bpRaw) else balLatest fr) \<and>
         pastBlock fr = (if 100 < latest fr then latest fr - 100 else latest fr) \<and>
         nonceNow fr = hexToBig (inner nnRaw) \<and>
         noncePast fr = hexToBig (inner npRaw) \<and>
         codeNowRaw fr = codeRaw"
    if "answered w bnRaw blRaw bpRaw nnRaw npRaw codeRaw"
    using that by (rule main_reads)
next
  assume r: "main w = Inr fr"
  show "Reasons (out fr) =
        (if 0 < balPast fr - balLatest fr then [''balance drop ~'' @ Text_f (weiToEth (balPast fr - balLatest fr)) 6 @ '' ETH/100 blocks''] else []) @
        (if 20 < nonceNow fr - noncePast fr then [''high tx activity: +'' @ intText 10 (nonceNow fr - noncePast fr) @ '' nonce/100 blocks''] else []) @
        (if 4 < length (codeNowRaw fr) then [''address has code (smart wallet or contract)''] else [])"
    by (rule main_Reasons [OF r])
  show "length (Reasons (out fr)) \<le> 3"
    unfolding main_Reasons [OF r] by simp
  assume "nonceNow fr - noncePast fr = 21 \<and> balPast fr = balLatest fr \<and>
         4 < length (codeNowRaw fr)"
  then show "Reasons (out fr) = [''high tx activity: +21 nonce/100 blocks'',
                           ''address has code (smart wallet or contract)'']"
    unfolding main_Reasons [OF r] by (simp add: intText_21)
qed

theorem reasons_in_rule_order_witness:
  "answered busyContractWorld (quoted ''0x3e8'') (quoted ''0xde0b6b3a7640000'')
     (quoted ''0xde0b6b3a7640000'') (quoted ''0x1a'') (quoted ''0x5'') (quoted ''0x6080'') \<and>
   main busyContractWorld = Inr busyContractFrame \<and>
   nonceNow busyContractFrame = hexToBig (inner (quoted ''0x1a'')) \<and>
   codeNowRaw busyContractFrame = quoted ''0x6080'' \<and>
   nonceNow busyContractFrame - noncePast busyContractFrame = 21 \<and>
   balPast busyContractFrame = balLatest busyContractFrame \<and>
   4 < length (codeNowRaw busyContractFrame) \<and>
   Reasons (out busyContractFrame) =
     [''high tx activity: +21 nonce/100 blocks'',
      ''address has code (smart wallet or contract)'']"
proof -
  note t = reasons_in_rule_order [where w = busyContractWorld and fr = busyContractFrame]
  from t [THEN conjunct1, THEN mp, OF answered_busyContract] obtain fr where
    f: "main busyContractWorld = Inr fr" "nonceNow fr = hexToBig (inner (quoted ''0x1a''))"
       "codeNowRaw fr = quoted ''0x6080''"
    by blast
  from f(1) run_busyContract have e: "fr = busyContractFrame" by simp
  note c = t [THEN conjunct2, THEN mp, OF run_busyContract]
  show ?thesis
    using answered_busyContract run_busyContract f(2,3) [unfolded e] c
    by (simp add: busyContractFrame_def quoted_def)
qed

text \<open>
  C9, as the code has it. A run whose requests the node answers ends with a report, and
  the code it tests is the node's raw code result. In every run that ends with a report,
  the code rule adds 10 to the score and the code reason once exactly when the raw result
  is longer than 4 bytes, and nothing otherwise. For a result that is the JSON string "0x"
  followed by whole bytes in hexadecimal this is exactly when the decoded code has at
  least one byte; the empty code "0x" adds nothing.
\<close>

theorem code_presence_rule:
  "(answered w bnRaw blRaw bpRaw nnRaw npRaw codeRaw \<longrightarrow>
      (\<exists>fr. main w = Inr fr \<and>
         latest fr = hexToBig (inner bnRaw) \<and>
         balLatest fr = hexToBig (inner blRaw) \<and>
         balPast fr = (if 100 < latest fr then hexToBig (inner bpRaw) else balLatest fr) \<and>
         pastBlock fr = (if 100 < latest fr then latest fr - 100 else latest fr) \<and>
         nonceNow fr = hexToBig (inner nnRaw) \<and>
         noncePast fr = hexToBig (inner npRaw) \<and>
         codeNowRaw fr = codeRaw)) \<and>
   (main w = Inr fr \<longrightarrow>
      Score (out fr) =
           (if 0 < balPast fr - balLatest fr then 35 else 0) +
           (if 20 < nonceNow fr - noncePast fr then 25 else 0) +
           (if 4 < length (codeNowRaw fr) then 10 else 0) \<and>
      filter (\<lambda>r. r = ''address has code (smart wallet or contract)'') (Reasons (out fr)) =
           (if 4 < length (codeNowRaw fr) then [''address has code (smart wallet or contract)''] else []) \<and>
      (codeNowRaw fr = quoted (''0x'' @ hs) \<and> even (length hs) \<longrightarrow>
         (4 < length (codeNowRaw fr)) = (0 < decodedByteLength (codeNowRaw fr))) \<and>
      (codeNowRaw fr = quoted ''0x'' \<longrightarrow> \<not> 4 < length (codeNowRaw fr)))"
proof (intro conjI impI)
  show "\<exists>fr. main w = Inr fr \<and>
         latest fr = hexToBig (inner bnRaw) \<and>
         balLatest fr = hexToBig (inner blRaw) \<and>
         balPast fr = (if 100 < latest fr then hexToBig (inner bpRaw) else balLatest fr) \<and>
         pastBlock fr = (if 100 < latest fr then latest fr - 100 else latest fr) \<and>
         nonceNow fr = hexToBig (inner nnRaw) \<and>
         noncePast fr = hexToBig (inner npRaw) \<and>
         codeNowRaw fr = codeRaw"
    if "answered w bnRaw blRaw bpRaw nnRaw npRaw codeRaw"
    using that by (rule main_reads)
next
  assume r: "main w = Inr fr"
  show "Score (out fr) =
           (if 0 < balPast fr - balLatest fr then 35 else 0) +
           (if 20 < nonceNow fr - noncePast fr then 25 else 0) +
           (if 4 < length (codeNowRaw fr) then 10 else 0)"
    by (rule main_Score_sum [OF r])
  show "filter (\<lambda>r. r = ''address has code (smart wallet or contract)'') (Reasons (out fr)) =
           (if 4 < length (codeNowRaw fr) then [''address has code (smart wallet or contract)''] else [])"
    unfolding main_Reasons [OF r] by simp
  show "(4 < length (codeNowRaw fr)) = (0 < decodedByteLength (codeNowRaw fr))"
    if h: "codeNowRaw fr = quoted (''0x'' @ hs) \<and> even (length hs)"
  proof -
    have d: "decodedByteLength (codeNowRaw fr) = length hs div 2"
      using h by (simp add: decodedByteLength_def inner_quoted)
    have l: "length (codeNowRaw fr) = 4 + length hs" using h by (simp add: quoted_def)
    show ?thesis unfolding d l using h by (cases hs) auto
  qed
  show "\<not> 4 < length (codeNowRaw fr)" if "codeNowRaw fr = quoted ''0x''"
    using that by (simp add: quoted_def)
qed

theorem code_presence_rule_witness:
  "answered busyContractWorld (quoted ''0x3e8'') (quoted ''0xde0b6b3a7640000'')
     (quoted ''0xde0b6b3a7640000'') (quoted ''0x1a'') (quoted ''0x5'') (quoted ''0x6080'') \<and>
   main busyContractWorld = Inr busyContractFrame \<and>
   nonceNow busyContractFrame = hexToBig (inner (quoted ''0x1a'')) \<and>
   codeNowRaw busyContractFrame = quoted ''0x6080'' \<and>
   codeNowRaw busyContractFrame = quoted (''0x'' @ ''6080'') \<and> even (length ''6080'') \<and>
   decodedByteLength (codeNowRaw busyContractFrame) = 2 \<and>
   4 < length (codeNowRaw busyContractFrame) \<and> Score (out busyContractFrame) = 0 + 25 + 10 \<and>
   filter (\<lambda>r. r = ''address has code (smart wallet or contract)'')
     (Reasons (out busyContractFrame)) = [''address has code (smart wallet or contract)'']"
proof -
  note t = code_presence_rule [where w = busyContractWorld and fr = busyContractFrame and hs = "''6080''"]
  from t [THEN conjunct1, THEN mp, OF answered_busyContract] obtain fr where
    f: "main busyContractWorld = Inr fr" "nonceNow fr = hexToBig (inner (quoted ''0x1a''))"
       "codeNowRaw fr = quoted ''0x6080''"
    by blast
  from f(1) run_busyContract have e: "fr = busyContractFrame" by simp
  note c = t [THEN conjunct2, THEN mp, OF run_busyContract]
  show ?thesis
    using answered_busyContract run_busyContract f(2,3) [unfolded e] c
    by (simp add: busyContractFrame_def quoted_def decodedByteLength_def inner_def)
qed

text \<open>
  C9 fails as stated: the code result "0x0" holds no whole byte, and the run scores 10
  with the code reason.
\<close>

theorem half_byte_counts_as_code:
  "decodedByteLength (quoted ''0x0'') = 0 \<and>
   main halfByteWorld =
     Inr \<lparr>latest = 16, balLatest = 0, balPast = 0, pastBlock = 16, nonceNow = 5,
          noncePast = 5, codeNowRaw = quoted ''0x0'',
          out = \<lparr>Address = ''0xabc'', Block = ''0x10'', Score = 10,
                 Reasons = [''address has code (smart wallet or contract)''],
                 BalLatest = ''0.000000''\<rparr>\<rparr>"
  by code_simp

end
